theory Spec2Isabelle
  imports Main "HOL-Library.Word"
begin

unbundle bit_operations_syntax

section \<open>JavaScript values\<close>

text \<open>
  A JavaScript string is a sequence of 16-bit code units, a \<open>Uint8Array\<close> a sequence of
  bytes. \<open>js\<close> writes a string literal of the source as code units.
\<close>

type_synonym byte = "8 word"
type_synonym jsstring = "16 word list"

definition js :: "string \<Rightarrow> jsstring" where
  "js s = map (\<lambda>c. word_of_nat (of_char c)) s"

datatype jsval =
    Undefined
  | Null
  | Boolean bool
  | Number int
  | Str jsstring
  | Bytes "byte list"

text \<open>
  The test \<open>!v\<close> of the source holds for the falsy values: \<open>undefined\<close>, \<open>null\<close>,
  \<open>false\<close>, \<open>0\<close> and the empty string. An object, also an empty \<open>Uint8Array\<close>, is truthy.
\<close>

fun truthy :: "jsval \<Rightarrow> bool" where
  "truthy Undefined = False"
| "truthy Null = False"
| "truthy (Boolean b) = b"
| "truthy (Number n) = (n \<noteq> 0)"
| "truthy (Str s) = (s \<noteq> [])"
| "truthy (Bytes b) = True"

text \<open>\<open>a || b\<close> of the source.\<close>

definition js_or :: "jsval \<Rightarrow> jsval \<Rightarrow> jsval" where
  "js_or a b = (if truthy a then a else b)"


text \<open>
  Exceptions, by the name of the error: those of the platform functions, and \<open>Unsupported\<close>
  for a call whose behaviour the source does not show.
\<close>

datatype error = TypeError | DataError | OperationError | InvalidCharacterError | Unsupported


section \<open>Platform: text encoding\<close>

text \<open>
  \<open>TextEncoder.encode\<close>: the string is read as code points (a surrogate pair is one code
  point, a lone surrogate becomes U+FFFD), each written in UTF-8.
\<close>

definition is_lead :: "16 word \<Rightarrow> bool" where
  "is_lead c = (0xD800 \<le> c \<and> c \<le> 0xDBFF)"

definition is_trail :: "16 word \<Rightarrow> bool" where
  "is_trail c = (0xDC00 \<le> c \<and> c \<le> 0xDFFF)"

fun code_points :: "jsstring \<Rightarrow> nat list" where
  "code_points [] = []"
| "code_points [c] = [if is_lead c \<or> is_trail c then 0xFFFD else unat c]"
| "code_points (c # d # cs) =
     (if is_lead c \<and> is_trail d
      then (0x10000 + (unat c - 0xD800) * 1024 + (unat d - 0xDC00)) # code_points cs
      else (if is_lead c \<or> is_trail c then 0xFFFD else unat c) # code_points (d # cs))"

definition utf8_of_code_point :: "nat \<Rightarrow> byte list" where
  "utf8_of_code_point cp =
     (if cp < 0x80 then [of_nat cp]
      else if cp < 0x800 then [of_nat (0xC0 + cp div 64), of_nat (0x80 + cp mod 64)]
      else if cp < 0x10000 then
        [of_nat (0xE0 + cp div 4096), of_nat (0x80 + cp div 64 mod 64), of_nat (0x80 + cp mod 64)]
      else
        [of_nat (0xF0 + cp div 262144), of_nat (0x80 + cp div 4096 mod 64),
         of_nat (0x80 + cp div 64 mod 64), of_nat (0x80 + cp mod 64)])"

definition TextEncoder_encode :: "jsstring \<Rightarrow> byte list" where
  "TextEncoder_encode s = concat (map utf8_of_code_point (code_points s))"

text \<open>
  \<open>new TextDecoder().decode\<close>: the UTF-8 decoder of the Encoding standard, in replacement
  mode. The arguments are the code point under construction, the number of continuation
  bytes still needed and the bounds for the next byte. A byte outside the bounds ends the
  sequence with U+FFFD and is read again as the start of a new one.
\<close>

fun utf8_decode :: "nat \<Rightarrow> nat \<Rightarrow> byte \<Rightarrow> byte \<Rightarrow> byte list \<Rightarrow> nat list" where
  "utf8_decode cp 0 lo hi [] = []"
| "utf8_decode cp (Suc n) lo hi [] = [0xFFFD]"
| "utf8_decode cp 0 lo hi (b # bs) =
     (if b \<le> 0x7F then unat b # utf8_decode 0 0 0x80 0xBF bs
      else if 0xC2 \<le> b \<and> b \<le> 0xDF then utf8_decode (unat (b AND 0x1F)) 1 0x80 0xBF bs
      else if 0xE0 \<le> b \<and> b \<le> 0xEF then
        utf8_decode (unat (b AND 0xF)) 2
          (if b = 0xE0 then 0xA0 else 0x80) (if b = 0xED then 0x9F else 0xBF) bs
      else if 0xF0 \<le> b \<and> b \<le> 0xF4 then
        utf8_decode (unat (b AND 0x7)) 3
          (if b = 0xF0 then 0x90 else 0x80) (if b = 0xF4 then 0x8F else 0xBF) bs
      else 0xFFFD # utf8_decode 0 0 0x80 0xBF bs)"
| "utf8_decode cp (Suc n) lo hi (b # bs) =
     (if \<not> (lo \<le> b \<and> b \<le> hi) then 0xFFFD # utf8_decode 0 0 0x80 0xBF (b # bs)
      else if n = 0 then (cp * 64 + unat (b AND 0x3F)) # utf8_decode 0 0 0x80 0xBF bs
      else utf8_decode (cp * 64 + unat (b AND 0x3F)) n 0x80 0xBF bs)"

definition utf16_of_code_point :: "nat \<Rightarrow> jsstring" where
  "utf16_of_code_point cp =
     (if cp < 0x10000 then [of_nat cp]
      else [of_nat (0xD800 + (cp - 0x10000) div 1024), of_nat (0xDC00 + (cp - 0x10000) mod 1024)])"

text \<open>A byte order mark at the start is dropped (\<open>ignoreBOM\<close> is false by default).\<close>

definition TextDecoder_decode :: "byte list \<Rightarrow> jsstring" where
  "TextDecoder_decode bs =
     (let cps = utf8_decode 0 0 0x80 0xBF bs
      in concat (map utf16_of_code_point
           (case cps of [] \<Rightarrow> [] | cp # rest \<Rightarrow> if cp = 0xFEFF then rest else cps)))"

section \<open>Platform: atob\<close>

text \<open>
  The browser's \<open>atob\<close>: forgiving-base64 decode of the HTML standard. ASCII whitespace is
  removed; if the length is then a multiple of 4, one or two closing \<open>=\<close> are removed; a
  length of 1 modulo 4 or a character outside the alphabet makes it throw an
  \<open>InvalidCharacterError\<close>.
\<close>

definition is_ascii_whitespace :: "16 word \<Rightarrow> bool" where
  "is_ascii_whitespace c = (c = 0x09 \<or> c = 0x0A \<or> c = 0x0C \<or> c = 0x0D \<or> c = 0x20)"

definition base64_value :: "16 word \<Rightarrow> nat option" where
  "base64_value c =
     (if 0x41 \<le> c \<and> c \<le> 0x5A then Some (unat c - 0x41)
      else if 0x61 \<le> c \<and> c \<le> 0x7A then Some (unat c - 0x61 + 26)
      else if 0x30 \<le> c \<and> c \<le> 0x39 then Some (unat c - 0x30 + 52)
      else if c = 0x2B then Some 62
      else if c = 0x2F then Some 63
      else None)"

definition strip_padding :: "jsstring \<Rightarrow> jsstring" where
  "strip_padding d =
     (if length d mod 4 = 0 \<and> d \<noteq> [] \<and> last d = 0x3D then
        (if butlast d \<noteq> [] \<and> last (butlast d) = 0x3D then butlast (butlast d) else butlast d)
      else d)"

fun base64_bytes :: "nat list \<Rightarrow> byte list" where
  "base64_bytes (a # b # c # d # rest) =
     [of_nat (a * 4 + b div 16), of_nat (b mod 16 * 16 + c div 4), of_nat (c mod 4 * 64 + d)]
     @ base64_bytes rest"
| "base64_bytes [a, b, c] = [of_nat (a * 4 + b div 16), of_nat (b mod 16 * 16 + c div 4)]"
| "base64_bytes [a, b] = [of_nat (a * 4 + b div 16)]"
| "base64_bytes rest = []"

definition atob :: "jsstring \<Rightarrow> error + jsstring" where
  "atob input =
     (let d = strip_padding (filter (\<lambda>c. \<not> is_ascii_whitespace c) input)
      in if length d mod 4 = 1 then Inl InvalidCharacterError
         else if \<exists>c \<in> set d. base64_value c = None then Inl InvalidCharacterError
         else Inr (map ucast (base64_bytes (map (\<lambda>c. the (base64_value c)) d))))"


section \<open>Platform: AES in counter mode\<close>

definition aes_sbox :: "byte list" where
  "aes_sbox = [
    0x63, 0x7c, 0x77, 0x7b, 0xf2, 0x6b, 0x6f, 0xc5, 0x30, 0x01, 0x67, 0x2b, 0xfe, 0xd7, 0xab, 0x76,
    0xca, 0x82, 0xc9, 0x7d, 0xfa, 0x59, 0x47, 0xf0, 0xad, 0xd4, 0xa2, 0xaf, 0x9c, 0xa4, 0x72, 0xc0,
    0xb7, 0xfd, 0x93, 0x26, 0x36, 0x3f, 0xf7, 0xcc, 0x34, 0xa5, 0xe5, 0xf1, 0x71, 0xd8, 0x31, 0x15,
    0x04, 0xc7, 0x23, 0xc3, 0x18, 0x96, 0x05, 0x9a, 0x07, 0x12, 0x80, 0xe2, 0xeb, 0x27, 0xb2, 0x75,
    0x09, 0x83, 0x2c, 0x1a, 0x1b, 0x6e, 0x5a, 0xa0, 0x52, 0x3b, 0xd6, 0xb3, 0x29, 0xe3, 0x2f, 0x84,
    0x53, 0xd1, 0x00, 0xed, 0x20, 0xfc, 0xb1, 0x5b, 0x6a, 0xcb, 0xbe, 0x39, 0x4a, 0x4c, 0x58, 0xcf,
    0xd0, 0xef, 0xaa, 0xfb, 0x43, 0x4d, 0x33, 0x85, 0x45, 0xf9, 0x02, 0x7f, 0x50, 0x3c, 0x9f, 0xa8,
    0x51, 0xa3, 0x40, 0x8f, 0x92, 0x9d, 0x38, 0xf5, 0xbc, 0xb6, 0xda, 0x21, 0x10, 0xff, 0xf3, 0xd2,
    0xcd, 0x0c, 0x13, 0xec, 0x5f, 0x97, 0x44, 0x17, 0xc4, 0xa7, 0x7e, 0x3d, 0x64, 0x5d, 0x19, 0x73,
    0x60, 0x81, 0x4f, 0xdc, 0x22, 0x2a, 0x90, 0x88, 0x46, 0xee, 0xb8, 0x14, 0xde, 0x5e, 0x0b, 0xdb,
    0xe0, 0x32, 0x3a, 0x0a, 0x49, 0x06, 0x24, 0x5c, 0xc2, 0xd3, 0xac, 0x62, 0x91, 0x95, 0xe4, 0x79,
    0xe7, 0xc8, 0x37, 0x6d, 0x8d, 0xd5, 0x4e, 0xa9, 0x6c, 0x56, 0xf4, 0xea, 0x65, 0x7a, 0xae, 0x08,
    0xba, 0x78, 0x25, 0x2e, 0x1c, 0xa6, 0xb4, 0xc6, 0xe8, 0xdd, 0x74, 0x1f, 0x4b, 0xbd, 0x8b, 0x8a,
    0x70, 0x3e, 0xb5, 0x66, 0x48, 0x03, 0xf6, 0x0e, 0x61, 0x35, 0x57, 0xb9, 0x86, 0xc1, 0x1d, 0x9e,
    0xe1, 0xf8, 0x98, 0x11, 0x69, 0xd9, 0x8e, 0x94, 0x9b, 0x1e, 0x87, 0xe9, 0xce, 0x55, 0x28, 0xdf,
    0x8c, 0xa1, 0x89, 0x0d, 0xbf, 0xe6, 0x42, 0x68, 0x41, 0x99, 0x2d, 0x0f, 0xb0, 0x54, 0xbb, 0x16]"

definition sub_byte :: "byte \<Rightarrow> byte" where
  "sub_byte b = aes_sbox ! unat b"

definition xtime :: "byte \<Rightarrow> byte" where
  "xtime b = push_bit 1 b XOR (if bit b 7 then 0x1B else 0)"

text \<open>
  The state is the block as 16 bytes in input order: byte \<open>4 * c + r\<close> is row \<open>r\<close> of
  column \<open>c\<close>.
\<close>

definition sub_bytes :: "byte list \<Rightarrow> byte list" where
  "sub_bytes s = map (\<lambda>i. sub_byte (s ! i)) [0..<16]"

definition shift_rows :: "byte list \<Rightarrow> byte list" where
  "shift_rows s = map (\<lambda>i. s ! (4 * ((i div 4 + i mod 4) mod 4) + i mod 4)) [0..<16]"

definition mix_columns :: "byte list \<Rightarrow> byte list" where
  "mix_columns s =
     map (\<lambda>i. let c = 4 * (i div 4); r = i mod 4;
                 a0 = s ! (c + r); a1 = s ! (c + (r + 1) mod 4);
                 a2 = s ! (c + (r + 2) mod 4); a3 = s ! (c + (r + 3) mod 4)
             in xtime a0 XOR (xtime a1 XOR a1) XOR a2 XOR a3) [0..<16]"

definition add_round_key :: "byte list \<Rightarrow> byte list \<Rightarrow> nat \<Rightarrow> byte list" where
  "add_round_key w s rnd = map (\<lambda>i. s ! i XOR w ! (16 * rnd + i)) [0..<16]"

text \<open>
  Key expansion for a key of \<open>Nk\<close> words: the schedule \<open>w\<close> grows by the word \<open>i\<close>, \<open>n\<close>
  words remain to be made.
\<close>

fun expand_key :: "nat \<Rightarrow> nat \<Rightarrow> nat \<Rightarrow> byte list \<Rightarrow> byte list" where
  "expand_key Nk i 0 w = w"
| "expand_key Nk i (Suc n) w =
     (let t = take 4 (drop (4 * (i - 1)) w);
          t' = (if i mod Nk = 0 then
                  [sub_byte (t ! 1) XOR (xtime ^^ (i div Nk - 1)) 1,
                   sub_byte (t ! 2), sub_byte (t ! 3), sub_byte (t ! 0)]
                else if Nk > 6 \<and> i mod Nk = 4 then map sub_byte t
                else t)
      in expand_key Nk (i + 1) n
           (w @ map (\<lambda>j. w ! (4 * (i - Nk) + j) XOR t' ! j) [0..<4]))"

definition key_schedule :: "byte list \<Rightarrow> byte list" where
  "key_schedule key =
     (let Nk = length key div 4 in expand_key Nk Nk (4 * (Nk + 7) - Nk) key)"

fun aes_rounds :: "byte list \<Rightarrow> nat \<Rightarrow> nat \<Rightarrow> byte list \<Rightarrow> byte list" where
  "aes_rounds w rnd 0 s = s"
| "aes_rounds w rnd (Suc n) s =
     aes_rounds w (rnd + 1) n (add_round_key w (mix_columns (shift_rows (sub_bytes s))) rnd)"

text \<open>The cipher of FIPS 197 on one block, with \<open>Nr = Nk + 6\<close> rounds.\<close>

definition aes_encrypt_block :: "byte list \<Rightarrow> byte list \<Rightarrow> byte list" where
  "aes_encrypt_block key blk =
     (let w = key_schedule key; Nr = length key div 4 + 6;
          s = aes_rounds w 1 (Nr - 1) (add_round_key w blk 0)
      in add_round_key w (shift_rows (sub_bytes s)) Nr)"

text \<open>
  The counter blocks of SP 800-38A, appendix B.1: the low \<open>m\<close> bits of the initial block,
  read as a big-endian number, count up modulo \<open>2 ^ m\<close>; the other bits stay.
\<close>

definition nat_of_bytes :: "byte list \<Rightarrow> nat" where
  "nat_of_bytes bs = foldl (\<lambda>n b. 256 * n + unat b) 0 bs"

definition block_of_nat :: "nat \<Rightarrow> byte list" where
  "block_of_nat n = map (\<lambda>i. of_nat (n div 256 ^ (15 - i))) [0..<16]"

definition counter_block :: "nat \<Rightarrow> byte list \<Rightarrow> nat \<Rightarrow> byte list" where
  "counter_block m t0 j =
     (let n = nat_of_bytes t0
      in block_of_nat (n div 2 ^ m * 2 ^ m + (n mod 2 ^ m + j) mod 2 ^ m))"

definition ctr_keystream :: "byte list \<Rightarrow> nat \<Rightarrow> byte list \<Rightarrow> nat \<Rightarrow> byte list" where
  "ctr_keystream key m t0 n =
     take n (concat (map (\<lambda>j. aes_encrypt_block key (counter_block m t0 j)) [0..<(n + 15) div 16]))"

definition ctr_transform :: "byte list \<Rightarrow> nat \<Rightarrow> byte list \<Rightarrow> byte list \<Rightarrow> byte list" where
  "ctr_transform key m t0 dat = map (\<lambda>(d, k). d XOR k) (zip dat (ctr_keystream key m t0 (length dat)))"


section \<open>md5\<close>

text \<open>
  Modelled from the spec: the body of \<open>md5\<close> is elided in the source ("standard
  implementation", producing a 128-bit hash). The spec's HashProvider fixes it: four 32-bit
  registers, the message padded to a 512-bit boundary with its length appended, blocks of
  64 bytes, 64 operations with the algorithm's table of constants; the result is exposed as
  raw bytes (\<open>md5_digest\<close>) and as a lowercase hex string (\<open>md5\<close>, below).
\<close>

definition md5_K :: "32 word list" where
  "md5_K = [
    0xd76aa478, 0xe8c7b756, 0x242070db, 0xc1bdceee, 0xf57c0faf, 0x4787c62a, 0xa8304613, 0xfd469501,
    0x698098d8, 0x8b44f7af, 0xffff5bb1, 0x895cd7be, 0x6b901122, 0xfd987193, 0xa679438e, 0x49b40821,
    0xf61e2562, 0xc040b340, 0x265e5a51, 0xe9b6c7aa, 0xd62f105d, 0x02441453, 0xd8a1e681, 0xe7d3fbc8,
    0x21e1cde6, 0xc33707d6, 0xf4d50d87, 0x455a14ed, 0xa9e3e905, 0xfcefa3f8, 0x676f02d9, 0x8d2a4c8a,
    0xfffa3942, 0x8771f681, 0x6d9d6122, 0xfde5380c, 0xa4beea44, 0x4bdecfa9, 0xf6bb4b60, 0xbebfbc70,
    0x289b7ec6, 0xeaa127fa, 0xd4ef3085, 0x04881d05, 0xd9d4d039, 0xe6db99e5, 0x1fa27cf8, 0xc4ac5665,
    0xf4292244, 0x432aff97, 0xab9423a7, 0xfc93a039, 0x655b59c3, 0x8f0ccc92, 0xffeff47d, 0x85845dd1,
    0x6fa87e4f, 0xfe2ce6e0, 0xa3014314, 0x4e0811a1, 0xf7537e82, 0xbd3af235, 0x2ad7d2bb, 0xeb86d391]"

definition md5_s :: "nat list" where
  "md5_s = [7, 12, 17, 22, 7, 12, 17, 22, 7, 12, 17, 22, 7, 12, 17, 22,
            5, 9, 14, 20, 5, 9, 14, 20, 5, 9, 14, 20, 5, 9, 14, 20,
            4, 11, 16, 23, 4, 11, 16, 23, 4, 11, 16, 23, 4, 11, 16, 23,
            6, 10, 15, 21, 6, 10, 15, 21, 6, 10, 15, 21, 6, 10, 15, 21]"

definition rotl32 :: "nat \<Rightarrow> 32 word \<Rightarrow> 32 word" where
  "rotl32 n x = push_bit n x OR drop_bit (32 - n) x"

text \<open>One of the 64 operations on the registers \<open>(A, B, C, D)\<close>, with message words \<open>M\<close>.\<close>

definition md5_op :: "32 word list \<Rightarrow> 32 word \<times> 32 word \<times> 32 word \<times> 32 word \<Rightarrow> nat
    \<Rightarrow> 32 word \<times> 32 word \<times> 32 word \<times> 32 word" where
  "md5_op M r i =
     (case r of (A, B, C, D) \<Rightarrow>
        let F = (if i < 16 then (B AND C) OR (NOT B AND D)
                 else if i < 32 then (D AND B) OR (NOT D AND C)
                 else if i < 48 then B XOR C XOR D
                 else C XOR (B OR NOT D));
            g = (if i < 16 then i
                 else if i < 32 then (5 * i + 1) mod 16
                 else if i < 48 then (3 * i + 5) mod 16
                 else (7 * i) mod 16)
        in (D, B + rotl32 (md5_s ! i) (F + A + md5_K ! i + M ! g), B, C))"

definition le32 :: "byte list \<Rightarrow> 32 word" where
  "le32 bs = ucast (bs ! 0) OR push_bit 8 (ucast (bs ! 1))
             OR push_bit 16 (ucast (bs ! 2)) OR push_bit 24 (ucast (bs ! 3))"

definition bytes_le32 :: "32 word \<Rightarrow> byte list" where
  "bytes_le32 w = [ucast w, ucast (drop_bit 8 w), ucast (drop_bit 16 w), ucast (drop_bit 24 w)]"

definition md5_block :: "32 word \<times> 32 word \<times> 32 word \<times> 32 word \<Rightarrow> byte list
    \<Rightarrow> 32 word \<times> 32 word \<times> 32 word \<times> 32 word" where
  "md5_block h blk =
     (let M = map (\<lambda>j. le32 (take 4 (drop (4 * j) blk))) [0..<16]
      in case (h, foldl (md5_op M) h [0..<64]) of
           ((a0, b0, c0, d0), (A, B, C, D)) \<Rightarrow> (a0 + A, b0 + B, c0 + C, d0 + D))"

text \<open>
  Padding: a byte \<open>0x80\<close>, zero bytes up to 56 modulo 64, then the length of the message in
  bits as 64 bits, low byte first.
\<close>

definition md5_pad :: "byte list \<Rightarrow> byte list" where
  "md5_pad m =
     m @ [0x80] @ replicate ((55 + 64 - length m mod 64) mod 64) 0
       @ map (\<lambda>j. ucast (drop_bit (8 * j) (word_of_nat (8 * length m) :: 64 word))) [0..<8]"

fun md5_blocks :: "nat \<Rightarrow> 32 word \<times> 32 word \<times> 32 word \<times> 32 word \<Rightarrow> byte list
    \<Rightarrow> 32 word \<times> 32 word \<times> 32 word \<times> 32 word" where
  "md5_blocks 0 h bs = h"
| "md5_blocks (Suc n) h bs = md5_blocks n (md5_block h (take 64 bs)) (drop 64 bs)"

definition md5_digest :: "byte list \<Rightarrow> byte list" where
  "md5_digest m =
     (case md5_blocks (length (md5_pad m) div 64)
             (0x67452301, 0xefcdab89, 0x98badcfe, 0x10325476) (md5_pad m) of
        (a, b, c, d) \<Rightarrow> bytes_le32 a @ bytes_le32 b @ bytes_le32 c @ bytes_le32 d)"

definition hex_digit :: "nat \<Rightarrow> 16 word" where
  "hex_digit n = (if n < 10 then of_nat (0x30 + n) else of_nat (0x61 + (n - 10)))"

definition hex_of_bytes :: "byte list \<Rightarrow> jsstring" where
  "hex_of_bytes bs = concat (map (\<lambda>b. [hex_digit (unat b div 16), hex_digit (unat b mod 16)]) bs)"

text \<open>
  Modelled from the spec: \<open>md5(message)\<close> as \<open>expandKey\<close> calls it, the lowercase hex string
  of the digest of the message text. The digest is specified for text; what the elided
  function does with another argument is not known, and is kept apart as \<open>Unsupported\<close>.
\<close>

definition md5 :: "jsval \<Rightarrow> error + jsstring" where
  "md5 message =
     (case message of
        Str s \<Rightarrow> Inr (hex_of_bytes (md5_digest (TextEncoder_encode s)))
      | _ \<Rightarrow> Inl Unsupported)"


section \<open>AesCtrCipher\<close>

text \<open>
  \<open>crypto.subtle.importKey("raw", keyData, aesConfig, false, keyUsage)\<close>: an AES key has
  128, 192 or 256 bits, another length is a \<open>DataError\<close>. The key object is the key bytes.
\<close>

definition subtle_importKey :: "byte list \<Rightarrow> error + byte list" where
  "subtle_importKey keyData =
     (if length keyData = 16 \<or> length keyData = 24 \<or> length keyData = 32
      then Inr keyData else Inl DataError)"

text \<open>
  The closure state of a cipher: \<open>cryptoKey\<close>, and the \<open>counter\<close> member of \<open>aesConfig\<close>,
  absent until \<open>expandKey\<close> sets it. The members \<open>name: "AES-CTR"\<close> and \<open>length: 128\<close> of
  \<open>aesConfig\<close> never change.
\<close>

record cipher =
  cryptoKey :: "byte list option"
  counter :: "byte list option"

definition AesCtrCipher_new :: cipher where
  "AesCtrCipher_new = \<lparr> cryptoKey = None, counter = None \<rparr>"

definition aesConfig_length :: nat where
  "aesConfig_length = 128"

text \<open>
  \<open>crypto.subtle.encrypt(aesConfig, cryptoKey, data)\<close> and \<open>crypto.subtle.decrypt\<close> for
  AES-CTR, which are the same transform. The data must be a buffer and the counter member
  present (else a \<open>TypeError\<close>), the counter 16 bytes and the length between 1 and 128
  (else an \<open>OperationError\<close>).
\<close>

definition aes_ctr_operation :: "cipher \<Rightarrow> byte list \<Rightarrow> jsval \<Rightarrow> error + byte list" where
  "aes_ctr_operation c key dat =
     (case dat of
        Bytes b \<Rightarrow>
          (case counter c of
             None \<Rightarrow> Inl TypeError
           | Some t0 \<Rightarrow>
               if length t0 \<noteq> 16 then Inl OperationError
               else if aesConfig_length = 0 \<or> aesConfig_length > 128 then Inl OperationError
               else Inr (ctr_transform key aesConfig_length t0 b))
      | _ \<Rightarrow> Inl TypeError)"

definition subtle_encrypt :: "cipher \<Rightarrow> byte list \<Rightarrow> jsval \<Rightarrow> error + byte list" where
  "subtle_encrypt = aes_ctr_operation"

definition subtle_decrypt :: "cipher \<Rightarrow> byte list \<Rightarrow> jsval \<Rightarrow> error + byte list" where
  "subtle_decrypt = aes_ctr_operation"

text \<open>
  \<open>expandKey(keyString)\<close>: the returned boolean and the new state; \<open>Inl\<close> is an exception
  that leaves the function. The call of \<open>md5\<close> stands outside the \<open>try\<close>, the import inside.
\<close>

definition expandKey :: "jsval \<Rightarrow> cipher \<Rightarrow> error + (bool \<times> cipher)" where
  "expandKey keyString c =
     (if \<not> truthy keyString then Inr (False, c)
      else case md5 keyString of
             Inl e \<Rightarrow> Inl e
           | Inr md5Hash \<Rightarrow>
               let keyData = TextEncoder_encode md5Hash;
                   c1 = c\<lparr> counter := Some (take 16 keyData) \<rparr>
               in case subtle_importKey keyData of
                    Inr k \<Rightarrow> Inr (True, c1\<lparr> cryptoKey := Some k \<rparr>)
                  | Inl e \<Rightarrow> Inr (False, c1))"

text \<open>
  \<open>encrypt(data)\<close>. The result string has one code unit per byte of the cipher's output
  (\<open>String.fromCharCode(byte)\<close>).
\<close>

definition encrypt :: "cipher \<Rightarrow> jsval \<Rightarrow> error + jsval" where
  "encrypt c dat =
     (if \<not> truthy dat \<or> cryptoKey c = None then Inr dat
      else
        let dat1 = (case dat of Str s \<Rightarrow> Bytes (TextEncoder_encode s) | _ \<Rightarrow> dat)
        in case subtle_encrypt c (the (cryptoKey c)) dat1 of
             Inl e \<Rightarrow> Inl e
           | Inr encryptedBuffer \<Rightarrow> Inr (Str (map ucast encryptedBuffer)))"

text \<open>
  \<open>decrypt(data)\<close>, with the function that \<open>window.atob\<close> holds at the call. A string is
  decoded by it, each character of the result gives a byte (\<open>charCodeAt(0)\<close>, stored in a
  \<open>Uint8Array\<close>), and the cipher's output is decoded as UTF-8. Other data goes to the
  cipher as it is and the output bytes are returned.
\<close>

definition decrypt :: "(jsstring \<Rightarrow> error + jsstring) \<Rightarrow> cipher \<Rightarrow> jsval \<Rightarrow> error + jsval" where
  "decrypt window_atob c dat =
     (if \<not> truthy dat \<or> cryptoKey c = None then Inr dat
      else case dat of
        Str s \<Rightarrow>
          (case window_atob s of
             Inl e \<Rightarrow> Inl e
           | Inr binaryString \<Rightarrow>
               (case subtle_decrypt c (the (cryptoKey c)) (Bytes (map ucast binaryString)) of
                  Inl e \<Rightarrow> Inl e
                | Inr decryptedBuffer \<Rightarrow> Inr (Str (TextDecoder_decode decryptedBuffer))))
      | _ \<Rightarrow>
          (case subtle_decrypt c (the (cryptoKey c)) dat of
             Inl e \<Rightarrow> Inl e
           | Inr decryptedBuffer \<Rightarrow> Inr (Bytes decryptedBuffer)))"


section \<open>patchAtob\<close>

text \<open>
  Module \<open>0xa10\<close> replaces \<open>window.atob\<close> by a function that calls the original and returns
  the empty string when it throws.
\<close>

definition patchAtob :: "(jsstring \<Rightarrow> error + jsstring) \<Rightarrow> jsstring \<Rightarrow> error + jsstring" where
  "patchAtob originalAtob input =
     (case originalAtob input of
        Inr decoded \<Rightarrow> Inr decoded
      | Inl e \<Rightarrow> Inr [])"


section \<open>DevtoolsDetector\<close>

text \<open>
  A checker, as the detector uses it: its \<open>name\<close> and the answers of \<open>isEnable()\<close> and
  \<open>isOpen()\<close>, which depend on the state \<open>'w\<close> of the browser at the call.
\<close>

record 'w checker =
  checker_name :: jsstring
  checker_isEnable :: "'w \<Rightarrow> bool"
  checker_isOpen :: "'w \<Rightarrow> bool"

text \<open>The argument \<open>status\<close> of \<open>broadcast\<close>: \<open>{ isOpen, checkerName }\<close>.\<close>

record status =
  status_isOpen :: bool
  checkerName :: jsstring

text \<open>
  A listener is a callback. Of its behaviour, the detector sees whether the call returns
  or throws; \<open>listener_id\<close> tells the callbacks apart.
\<close>

record listener =
  listener_id :: nat
  listener_throws :: "status \<Rightarrow> bool"

datatype thrown = Thrown

definition call_listener :: "listener \<Rightarrow> status \<Rightarrow> thrown + unit" where
  "call_listener l st = (if listener_throws l st then Inl Thrown else Inr ())"

datatype call = IsEnable jsstring | IsOpen jsstring

text \<open>
  A call of \<open>detectLoop\<close> that is suspended at an \<open>await\<close>: the checker whose answer it
  waits for, the checkers after it, the locals \<open>isDevtoolsOpen\<close> and \<open>checkerName\<close>, and the
  answer, fixed when the call was made.
\<close>

datatype 'w frame =
    AwaitIsEnable "'w checker" "'w checker list" bool jsstring bool
  | AwaitIsOpen "'w checker" "'w checker list" bool jsstring bool

text \<open>
  The fields of the detector object, and with them what it leaves in its surroundings:
  the timeouts that are pending (each one calls \<open>detectLoop\<close>), the identifier of the next
  timeout, the suspended calls of \<open>detectLoop\<close>, and the records of the calls made to
  checkers, of the calls of \<open>broadcast\<close> and of the calls made to listeners.
\<close>

record 'w detector =
  listeners :: "listener list"
  isOpen :: bool
  detectLoopStopped :: bool
  detectLoopDelay :: int
  checkers :: "'w checker list"
  timer :: "nat option"
  pending :: "nat list"
  nextTimer :: nat
  suspended :: "'w frame list"
  calls :: "call list"
  broadcasts :: "status list"
  notified :: "(nat \<times> status) list"

text \<open>\<open>new DevtoolsDetector({ checkers })\<close>, in surroundings with nothing pending.\<close>

definition DevtoolsDetector_new :: "'w checker list \<Rightarrow> 'w detector" where
  "DevtoolsDetector_new cs =
     \<lparr> listeners = [], isOpen = False, detectLoopStopped = True, detectLoopDelay = 500,
       checkers = cs, timer = None, pending = [], nextTimer = 0, suspended = [],
       calls = [], broadcasts = [], notified = [] \<rparr>"

definition addListener :: "listener \<Rightarrow> 'w detector \<Rightarrow> 'w detector" where
  "addListener callback s = s\<lparr> listeners := listeners s @ [callback] \<rparr>"

text \<open>
  Modelled from the spec: \<open>setDetectDelay\<close> is called by \<open>launch\<close> but is not in the source;
  by the spec \<open>launch\<close> resets a non-positive delay to the default, so it stores the delay.
\<close>

definition setDetectDelay :: "int \<Rightarrow> 'w detector \<Rightarrow> 'w detector" where
  "setDetectDelay v s = s\<lparr> detectLoopDelay := v \<rparr>"

text \<open>\<open>clearTimeout(this.timer)\<close>: an identifier that is not pending, or none, clears nothing.\<close>

definition clearTimeout :: "nat option \<Rightarrow> nat list \<Rightarrow> nat list" where
  "clearTimeout t ps = (case t of None \<Rightarrow> ps | Some i \<Rightarrow> removeAll i ps)"

definition stop :: "'w detector \<Rightarrow> 'w detector" where
  "stop s =
     (if \<not> detectLoopStopped s then
        s\<lparr> detectLoopStopped := True, isOpen := False,
           pending := clearTimeout (timer s) (pending s) \<rparr>
      else s)"

text \<open>
  \<open>broadcast(status)\<close>: every listener is called in turn inside \<open>try { } catch (e) {}\<close>, so
  the loop goes on to the next listener whether the call returns or throws.
\<close>

fun broadcast_loop :: "listener list \<Rightarrow> status \<Rightarrow> 'w detector \<Rightarrow> 'w detector" where
  "broadcast_loop [] st s = s"
| "broadcast_loop (l # ls) st s =
     (case call_listener l st of
        Inr _ \<Rightarrow> broadcast_loop ls st (s\<lparr> notified := notified s @ [(listener_id l, st)] \<rparr>)
      | Inl e \<Rightarrow> broadcast_loop ls st (s\<lparr> notified := notified s @ [(listener_id l, st)] \<rparr>))"

definition broadcast :: "status \<Rightarrow> 'w detector \<Rightarrow> 'w detector" where
  "broadcast st s = broadcast_loop (listeners s) st (s\<lparr> broadcasts := broadcasts s @ [st] \<rparr>)"

text \<open>
  The part of \<open>detectLoop\<close> after the \<open>for\<close> loop: the comparison with the stored state and
  the broadcast, then the new timeout or \<open>stop\<close>.
\<close>

definition after_checkers :: "bool \<Rightarrow> jsstring \<Rightarrow> 'w detector \<Rightarrow> 'w detector" where
  "after_checkers isDevtoolsOpen name s =
     (let s1 = (if isDevtoolsOpen \<noteq> isOpen s
                then broadcast \<lparr> status_isOpen = isDevtoolsOpen, checkerName = name \<rparr>
                       (s\<lparr> isOpen := isDevtoolsOpen \<rparr>)
                else s)
      in if detectLoopDelay s1 > 0 \<and> \<not> detectLoopStopped s1
         then s1\<lparr> timer := Some (nextTimer s1), pending := pending s1 @ [nextTimer s1],
                  nextTimer := Suc (nextTimer s1) \<rparr>
         else stop s1)"

text \<open>
  The \<open>for\<close> loop of \<open>detectLoop\<close> from a given checker on, when every \<open>await\<close> is answered
  at once and nothing else runs in between; \<open>w\<close> is the state of the browser in this cycle.
\<close>

fun for_checkers :: "'w \<Rightarrow> 'w checker list \<Rightarrow> bool \<Rightarrow> jsstring \<Rightarrow> 'w detector \<Rightarrow> 'w detector" where
  "for_checkers w [] isDevtoolsOpen name s = after_checkers isDevtoolsOpen name s"
| "for_checkers w (c # cs) isDevtoolsOpen name s =
     (let s1 = s\<lparr> calls := calls s @ [IsEnable (checker_name c)] \<rparr>
      in if checker_isEnable c w then
           (let s2 = s1\<lparr> calls := calls s1 @ [IsOpen (checker_name c)] \<rparr>;
                isDevtoolsOpen' = checker_isOpen c w
            in if isDevtoolsOpen' then after_checkers isDevtoolsOpen' (checker_name c) s2
               else for_checkers w cs isDevtoolsOpen' (checker_name c) s2)
         else for_checkers w cs isDevtoolsOpen name s1)"

definition detectLoop :: "'w \<Rightarrow> 'w detector \<Rightarrow> 'w detector" where
  "detectLoop w s = for_checkers w (checkers s) False [] s"

text \<open>
  \<open>launch()\<close>, with the way \<open>detectLoop\<close> runs as an argument: as one uninterrupted cycle
  (\<open>detectLoop\<close>) or up to its first \<open>await\<close> (\<open>detectLoop_begin\<close>, below).
\<close>

definition launch_with :: "('w detector \<Rightarrow> 'w detector) \<Rightarrow> 'w detector \<Rightarrow> 'w detector" where
  "launch_with run s =
     (let s1 = (if detectLoopDelay s \<le> 0 then setDetectDelay 500 s else s)
      in if detectLoopStopped s1 then run (s1\<lparr> detectLoopStopped := False \<rparr>) else s1)"

text \<open>A pending timeout fires: it is no longer pending and its callback calls \<open>detectLoop\<close>.\<close>

definition timeout_with :: "('w detector \<Rightarrow> 'w detector) \<Rightarrow> nat \<Rightarrow> 'w detector \<Rightarrow> 'w detector" where
  "timeout_with run i s =
     (if i \<in> set (pending s) then run (s\<lparr> pending := removeAll i (pending s) \<rparr>) else s)"

definition launch :: "'w \<Rightarrow> 'w detector \<Rightarrow> 'w detector" where
  "launch w = launch_with (detectLoop w)"

definition tick :: "nat \<Rightarrow> 'w \<Rightarrow> 'w detector \<Rightarrow> 'w detector" where
  "tick i w = timeout_with (detectLoop w) i"

subsection \<open>detectLoop with its suspensions\<close>

text \<open>
  \<open>detectLoop\<close> is an \<open>async\<close> function: at each \<open>await\<close> it is suspended, and other code
  (a call of \<open>stop\<close> or \<open>launch\<close>, a timeout) can run before it resumes. \<open>loop_head\<close> is the
  head of the \<open>for\<close> loop: with a checker left it calls \<open>isEnable()\<close> and suspends.
\<close>

fun loop_head :: "'w \<Rightarrow> 'w checker list \<Rightarrow> bool \<Rightarrow> jsstring \<Rightarrow> 'w detector \<Rightarrow> 'w detector" where
  "loop_head w [] isDevtoolsOpen name s = after_checkers isDevtoolsOpen name s"
| "loop_head w (c # cs) isDevtoolsOpen name s =
     s\<lparr> calls := calls s @ [IsEnable (checker_name c)],
        suspended := suspended s @ [AwaitIsEnable c cs isDevtoolsOpen name (checker_isEnable c w)] \<rparr>"

definition detectLoop_begin :: "'w \<Rightarrow> 'w detector \<Rightarrow> 'w detector" where
  "detectLoop_begin w s = loop_head w (checkers s) False [] s"

text \<open>The suspended call number \<open>i\<close> resumes and runs to its next \<open>await\<close> or to its end.\<close>

definition resume :: "nat \<Rightarrow> 'w \<Rightarrow> 'w detector \<Rightarrow> 'w detector" where
  "resume i w s =
     (if i < length (suspended s) then
        (let s1 = s\<lparr> suspended := take i (suspended s) @ drop (Suc i) (suspended s) \<rparr>
         in case suspended s ! i of
              AwaitIsEnable c cs isDevtoolsOpen name answer \<Rightarrow>
                if answer then
                  s1\<lparr> calls := calls s1 @ [IsOpen (checker_name c)],
                      suspended := suspended s1
                        @ [AwaitIsOpen c cs isDevtoolsOpen (checker_name c) (checker_isOpen c w)] \<rparr>
                else loop_head w cs isDevtoolsOpen name s1
            | AwaitIsOpen c cs isDevtoolsOpen name answer \<Rightarrow>
                if answer then after_checkers answer name s1
                else loop_head w cs answer name s1)
      else s)"

text \<open>What can happen to a detector, one thing at a time, and a sequence of such events.\<close>

datatype 'w event =
    Launch 'w
  | Stop
  | AddListener listener
  | Timeout nat 'w
  | Resume nat 'w

fun step :: "'w detector \<Rightarrow> 'w event \<Rightarrow> 'w detector" where
  "step s (Launch w) = launch_with (detectLoop_begin w) s"
| "step s Stop = stop s"
| "step s (AddListener l) = addListener l s"
| "step s (Timeout i w) = timeout_with (detectLoop_begin w) i s"
| "step s (Resume i w) = resume i w s"

definition run :: "'w detector \<Rightarrow> 'w event list \<Rightarrow> 'w detector" where
  "run s evs = foldl step s evs"

text \<open>A suspended call is resumed until none is left, at most \<open>n\<close> times.\<close>

fun drain :: "nat \<Rightarrow> 'w \<Rightarrow> 'w detector \<Rightarrow> 'w detector" where
  "drain 0 w s = s"
| "drain (Suc n) w s = (if suspended s = [] then s else drain n w (resume 0 w s))"


text \<open>
  A detector between poll cycles: no call of \<open>detectLoop\<close> is suspended, the only timeout
  that can be pending is the one in \<open>this.timer\<close>, and none is pending when it is stopped.
\<close>

definition quiet :: "'w detector \<Rightarrow> bool" where
  "quiet s = (suspended s = [] \<and> set (pending s) \<subseteq> set_option (timer s)
              \<and> (detectLoopStopped s \<longrightarrow> pending s = []))"


section \<open>Mp4Player: selecting the playback implementation\<close>

datatype backend = Mp4PlayerSW | Mp4PlayerBox | Mp4PlayerNative | Mp4PlayerVideo

text \<open>
  The flags \<open>Mp4Player\<close> computes before \<open>setup\<close> runs. Module \<open>0x22df\<close> fixes
  \<open>isEdgeAndroid = false\<close>, \<open>isHeyTapBrowser = false\<close> and \<open>isChromeVersionOk = true\<close>;
  the annotated copy leaves the browser checks open, so all five are inputs here.
\<close>

record capabilities =
  isMediaSourceSupported :: bool
  isServiceWorkerSupported :: bool
  isEdgeAndroid :: bool
  isHeyTapBrowser :: bool
  isChromeVersionOk :: bool

text \<open>
  \<open>new Mp4PlayerSW(config)\<close>: a \<open>new\<close> expression that returns always yields an object,
  never \<open>null\<close>. \<open>playerImplementation\<close> is \<open>None\<close> while it is \<open>null\<close>.
\<close>

definition new_backend :: "backend \<Rightarrow> backend option" where
  "new_backend b = Some b"

text \<open>
  \<open>Mp4Player.setup\<close>, up to the call of the chosen implementation's own \<open>setup\<close>: the value
  is the implementation held in \<open>playerImplementation\<close> at that call.
\<close>

definition Mp4Player_setup :: "capabilities \<Rightarrow> backend" where
  "Mp4Player_setup caps =
     (let playerImplementation =
            (if isServiceWorkerSupported caps \<and> \<not> isEdgeAndroid caps
                  \<and> \<not> isHeyTapBrowser caps \<and> isChromeVersionOk caps
             then new_backend Mp4PlayerSW
             else if isMediaSourceSupported caps
             then new_backend Mp4PlayerBox
             else new_backend Mp4PlayerNative)
      in case playerImplementation of
           None \<Rightarrow> Mp4PlayerVideo
         | Some impl \<Rightarrow> impl)"


section \<open>Player: destroy\<close>

text \<open>
  What \<open>destroy\<close> does to its collaborators, in the order of the calls. The collaborators
  themselves (the implementation selector, the service worker manager, the tracker and
  \<open>showSecurityWarning\<close>) are outside the player; their calls are recorded, and they return.
\<close>

datatype effect =
    PlayerInstanceDestroy
  | ServiceWorkerDestroy
  | TrackerDestroy
  | ShowSecurityWarning jsstring jsval

datatype tracker_obj = Tracker
datatype mp4player_obj = Mp4Player

record player =
  tracker :: "tracker_obj option"
  playerInstance :: "mp4player_obj option"
  isDestroyed :: bool
  options :: "(string \<times> jsval) list"

text \<open>The closure variables of a new \<open>Player\<close>.\<close>

definition new_player :: player where
  "new_player = \<lparr> tracker = None, playerInstance = None, isDestroyed = False, options = [] \<rparr>"

text \<open>
  \<open>mediaManager.destroy(reason)\<close>: the new closure state and the calls made.
  \<open>playerInstance?.destroy()\<close> and \<open>tracker?.destroy()\<close> call only when the variable is set.
\<close>

definition destroy :: "jsval \<Rightarrow> player \<Rightarrow> player \<times> effect list" where
  "destroy reason p =
     (if \<not> isDestroyed p then
        (p\<lparr> isDestroyed := True, playerInstance := None, options := [], tracker := None \<rparr>,
         (case playerInstance p of None \<Rightarrow> [] | Some _ \<Rightarrow> [PlayerInstanceDestroy])
         @ [ServiceWorkerDestroy]
         @ (case tracker p of None \<Rightarrow> [] | Some _ \<Rightarrow> [TrackerDestroy])
         @ [ShowSecurityWarning (js ''Notification'')
              (js_or reason (Str (js ''Player has been destroyed'')))])
      else (p, []))"

fun is_notification :: "effect \<Rightarrow> bool" where
  "is_notification (ShowSecurityWarning t m) = True"
| "is_notification e = False"


section \<open>Example values\<close>

text \<open>The cipher after \<open>expandKey("abc")\<close>: the hex string of the digest of \<open>abc\<close> as key
  bytes, its first 16 characters as counter.\<close>

definition cipher_abc :: cipher where
  "cipher_abc = \<lparr> cryptoKey = Some (map ucast (js ''900150983cd24fb0d6963f7d28e17f72'')),
                   counter = Some (map ucast (js ''900150983cd24fb0'')) \<rparr>"

text \<open>Checkers whose answers do not depend on the browser, and two listeners.\<close>

definition checker_x :: "unit checker" where
  "checker_x = \<lparr> checker_name = js ''x'', checker_isEnable = (\<lambda>w. True),
                 checker_isOpen = (\<lambda>w. True) \<rparr>"

definition checker_a :: "unit checker" where
  "checker_a = \<lparr> checker_name = js ''a'', checker_isEnable = (\<lambda>w. False),
                 checker_isOpen = (\<lambda>w. False) \<rparr>"

definition checker_b :: "unit checker" where
  "checker_b = \<lparr> checker_name = js ''b'', checker_isEnable = (\<lambda>w. True),
                 checker_isOpen = (\<lambda>w. True) \<rparr>"

definition checker_c :: "unit checker" where
  "checker_c = \<lparr> checker_name = js ''c'', checker_isEnable = (\<lambda>w. False),
                 checker_isOpen = (\<lambda>w. True) \<rparr>"

definition listener_1 :: listener where
  "listener_1 = \<lparr> listener_id = 1, listener_throws = (\<lambda>st. False) \<rparr>"

definition listener_throwing :: listener where
  "listener_throwing = \<lparr> listener_id = 2, listener_throws = (\<lambda>st. True) \<rparr>"


section \<open>Results: AesCtrCipher\<close>

lemma length_bytes_le32: "length (bytes_le32 w) = 4"
  by (simp add: bytes_le32_def)

lemma length_md5_digest: "length (md5_digest m) = 16"
  by (simp add: md5_digest_def length_bytes_le32 split: prod.splits)

lemma length_hex_of_bytes: "length (hex_of_bytes bs) = 2 * length bs"
  by (induction bs) (simp_all add: hex_of_bytes_def)

lemma hex_digit_ascii: "n < 16 \<Longrightarrow> hex_digit n < 0x80"
  by (simp add: hex_digit_def word_less_nat_alt unat_of_nat unat_word_ariths)

lemma byte_div16: "unat (b :: byte) div 16 < 16"
  using unsigned_less [of b, where 'a = nat] by simp

lemma hex_of_bytes_ascii: "c \<in> set (hex_of_bytes bs) \<Longrightarrow> c < 0x80"
  by (auto simp: hex_of_bytes_def hex_digit_ascii byte_div16)

lemma code_points_ascii: "\<forall>c \<in> set s. c < 0x80 \<Longrightarrow> code_points s = map unat s"
  by (induction s rule: code_points.induct)
     (auto simp: is_lead_def is_trail_def word_less_nat_alt word_le_nat_alt)

lemma utf8_ascii: "c < 0x80 \<Longrightarrow> utf8_of_code_point (unat (c :: 16 word)) = [ucast c]"
  by (simp add: utf8_of_code_point_def word_less_nat_alt)

lemma TextEncoder_encode_ascii:
  "\<forall>c \<in> set s. c < 0x80 \<Longrightarrow> TextEncoder_encode s = map ucast s"
proof -
  have "\<forall>c \<in> set s. c < 0x80 \<Longrightarrow> concat (map utf8_of_code_point (map unat s)) = map ucast s"
    by (induction s) (simp_all add: utf8_ascii)
  then show "\<forall>c \<in> set s. c < 0x80 \<Longrightarrow> TextEncoder_encode s = map ucast s"
    by (simp add: TextEncoder_encode_def code_points_ascii)
qed

text \<open>The digests of the empty message and of \<open>abc\<close> are the published ones.\<close>

lemma md5_digest_empty:
  "md5_digest []
     = [0xd4, 0x1d, 0x8c, 0xd9, 0x8f, 0x00, 0xb2, 0x04, 0xe9, 0x80, 0x09, 0x98, 0xec, 0xf8, 0x42, 0x7e]"
  by code_simp

lemma md5_digest_abc:
  "md5_digest (TextEncoder_encode (js ''abc''))
     = [0x90, 0x01, 0x50, 0x98, 0x3c, 0xd2, 0x4f, 0xb0, 0xd6, 0x96, 0x3f, 0x7d, 0x28, 0xe1, 0x7f, 0x72]"
  by code_simp

lemma length_aes_encrypt_block: "length (aes_encrypt_block key blk) = 16"
  by (simp add: aes_encrypt_block_def add_round_key_def Let_def)

lemma length_concat_blocks:
  "length (concat (map (\<lambda>j. aes_encrypt_block key (f j)) idx)) = 16 * length idx"
  by (induction idx) (simp_all add: length_aes_encrypt_block)

lemma length_ctr_keystream: "length (ctr_keystream key m t0 n) = n"
  by (simp add: ctr_keystream_def length_concat_blocks)

lemma length_ctr_transform: "length (ctr_transform key m t0 d) = length d"
  by (simp add: ctr_transform_def length_ctr_keystream)

lemma xor_zip_twice:
  "length d = length ks \<Longrightarrow>
     map (\<lambda>(d, k). d XOR k) (zip (map (\<lambda>(d, k). d XOR k) (zip d ks)) ks) = (d :: byte list)"
  by (induction d ks rule: list_induct2) (simp_all add: xor.assoc)

lemma ctr_transform_twice: "ctr_transform key m t0 (ctr_transform key m t0 d) = d"
  using length_ctr_transform [of key m t0 d] length_ctr_keystream [of key m t0 "length d"]
  by (simp add: ctr_transform_def xor_zip_twice)

lemma ucast_byte_roundtrip: "(ucast (ucast (b :: byte) :: 16 word) :: byte) = b"
  by (simp add: ucast_up_ucast_id is_up)

lemma take_hex_of_bytes: "take (2 * n) (hex_of_bytes bs) = hex_of_bytes (take n bs)"
proof (induction bs arbitrary: n)
  case Nil
  then show ?case by (simp add: hex_of_bytes_def)
next
  case (Cons b bs)
  show ?case
  proof (cases n)
    case 0
    then show ?thesis by (simp add: hex_of_bytes_def)
  next
    case (Suc k)
    with Cons.IH [of k] show ?thesis by (simp add: hex_of_bytes_def)
  qed
qed

lemma keyData_of_digest:
  "TextEncoder_encode (hex_of_bytes (md5_digest m)) = map ucast (hex_of_bytes (md5_digest m))"
  by (rule TextEncoder_encode_ascii) (simp add: hex_of_bytes_ascii)

lemma expandKey_string:
  assumes "s \<noteq> []"
  shows "expandKey (Str s) c =
           Inr (True, c\<lparr> counter := Some (take 16 (map ucast (hex_of_bytes (md5_digest (TextEncoder_encode s))))),
                         cryptoKey := Some (map ucast (hex_of_bytes (md5_digest (TextEncoder_encode s)))) \<rparr>)"
  using assms
  by (simp add: expandKey_def md5_def keyData_of_digest subtle_importKey_def
        length_hex_of_bytes length_md5_digest Let_def)

lemma expandKey_True:
  assumes "expandKey secret c0 = Inr (True, c)"
  shows "\<exists>k t. cryptoKey c = Some k \<and> counter c = Some t \<and> length t = 16"
proof (cases "truthy secret")
  case False
  with assms show ?thesis by (simp add: expandKey_def)
next
  case True
  show ?thesis
  proof (cases secret)
    case (Str s)
    with True have "s \<noteq> []" by simp
    from expandKey_string [OF this, of c0] assms Str show ?thesis
      by (auto simp: length_hex_of_bytes length_md5_digest)
  qed (use assms True in \<open>simp_all add: expandKey_def md5_def\<close>)
qed

lemma aes_ctr_operation_Bytes:
  "counter c = Some t \<Longrightarrow> length t = 16 \<Longrightarrow>
     aes_ctr_operation c k (Bytes b) = Inr (ctr_transform k 128 t b)"
  by (simp add: aes_ctr_operation_def aesConfig_length_def)

lemma ctr_transform_Nil: "ctr_transform k m t [] = []"
  by (simp add: ctr_transform_def)

lemma TextDecoder_decode_Nil: "TextDecoder_decode [] = []"
  by (simp add: TextDecoder_decode_def)

lemma atob_Nil: "atob [] = Inr []"
  by (simp add: atob_def strip_padding_def)

lemma encrypt_Bytes:
  "cryptoKey c = Some k \<Longrightarrow> counter c = Some t \<Longrightarrow> length t = 16 \<Longrightarrow>
     encrypt c (Bytes p) = Inr (Str (map ucast (ctr_transform k 128 t p)))"
  by (simp add: encrypt_def subtle_encrypt_def aes_ctr_operation_Bytes)

lemma decrypt_Bytes:
  "cryptoKey c = Some k \<Longrightarrow> counter c = Some t \<Longrightarrow> length t = 16 \<Longrightarrow>
     decrypt a c (Bytes p) = Inr (Bytes (ctr_transform k 128 t p))"
  by (simp add: decrypt_def subtle_decrypt_def aes_ctr_operation_Bytes)

lemma decrypt_Str:
  "cryptoKey c = Some k \<Longrightarrow> counter c = Some t \<Longrightarrow> length t = 16 \<Longrightarrow> s \<noteq> [] \<Longrightarrow>
     a s = Inr b \<Longrightarrow>
     decrypt a c (Str s) = Inr (Str (TextDecoder_decode (ctr_transform k 128 t (map ucast b))))"
  by (simp add: decrypt_def subtle_decrypt_def aes_ctr_operation_Bytes)

lemma patchAtob_never_throws: "\<exists>r. patchAtob a s = Inr r"
  by (cases "a s") (simp_all add: patchAtob_def)

lemma atob_single: "atob [x] = Inr [] \<or> atob [x] = Inl InvalidCharacterError"
  by (simp add: atob_def strip_padding_def)

lemma patchAtob_atob_single: "patchAtob atob [x] = Inr []"
  using atob_single [of x] by (auto simp: patchAtob_def)

lemma hex_abc:
  "hex_of_bytes [0x90, 0x01, 0x50, 0x98, 0x3c, 0xd2, 0x4f, 0xb0, 0xd6, 0x96, 0x3f, 0x7d, 0x28, 0xe1, 0x7f, 0x72]
     = js ''900150983cd24fb0d6963f7d28e17f72''"
  by code_simp

lemma take_16_hex_abc:
  "take 16 (map ucast (js ''900150983cd24fb0d6963f7d28e17f72'') :: byte list)
     = map ucast (js ''900150983cd24fb0'')"
  by (simp add: js_def)

lemma expandKey_abc: "expandKey (Str (js ''abc'')) AesCtrCipher_new = Inr (True, cipher_abc)"
proof -
  have "js ''abc'' \<noteq> []" by (simp add: js_def)
  from expandKey_string [OF this, of AesCtrCipher_new] show ?thesis
    by (simp add: md5_digest_abc hex_abc take_16_hex_abc cipher_abc_def AesCtrCipher_new_def)
qed

lemma counter_abc_bytes:
  "(map ucast (js ''900150983cd24fb0'') :: byte list)
     = [0x39, 0x30, 0x30, 0x31, 0x35, 0x30, 0x39, 0x38, 0x33, 0x63, 0x64, 0x32, 0x34, 0x66, 0x62, 0x30]"
  by (simp add: js_def)

lemma cipher_abc_fields:
  "cryptoKey cipher_abc = Some (map ucast (js ''900150983cd24fb0d6963f7d28e17f72''))"
  "counter cipher_abc = Some (map ucast (js ''900150983cd24fb0''))"
  "length (map ucast (js ''900150983cd24fb0'') :: byte list) = 16"
  by (simp_all add: cipher_abc_def js_def)

lemma atob_not_valid: "atob (js ''not-valid-base64!!'') = Inl InvalidCharacterError"
  by code_simp

text \<open>
  C1, as stated, fails: the output of \<open>encrypt\<close> is a string, and \<open>decrypt\<close> reads a string
  as base64 text. With the key expanded from the secret \<open>abc\<close>, the plaintext of one byte
  \<open>0x78\<close> is encrypted to a string of one character; no string of one character is base64
  text with content, so \<open>decrypt\<close> of that output is the empty string, not the plaintext.
\<close>

theorem C1_decrypt_of_encrypt_output:
  "expandKey (Str (js ''abc'')) AesCtrCipher_new = Inr (True, cipher_abc)
   \<and> encrypt cipher_abc (Bytes [0x78])
       = Inr (Str [ucast (0x78 XOR hd (ctr_keystream (map ucast (js ''900150983cd24fb0d6963f7d28e17f72'')) 128
                                         (map ucast (js ''900150983cd24fb0'')) 1))])
   \<and> decrypt (patchAtob atob) cipher_abc
        (Str [ucast (0x78 XOR hd (ctr_keystream (map ucast (js ''900150983cd24fb0d6963f7d28e17f72'')) 128
                                         (map ucast (js ''900150983cd24fb0'')) 1))])
       = Inr (Str [])
   \<and> Str [] \<noteq> Bytes [0x78]"
proof -
  let ?K = "map ucast (js ''900150983cd24fb0d6963f7d28e17f72'') :: byte list"
  let ?T = "map ucast (js ''900150983cd24fb0'') :: byte list"
  obtain z where z: "ctr_keystream ?K 128 ?T 1 = [z]"
    using length_ctr_keystream [of ?K 128 ?T 1] by (auto simp: length_Suc_conv)
  have enc: "encrypt cipher_abc (Bytes [0x78]) = Inr (Str [ucast (0x78 XOR hd (ctr_keystream ?K 128 ?T 1))])"
    using encrypt_Bytes [OF cipher_abc_fields, of "[0x78]"] z
    by (simp add: ctr_transform_def)
  have dec: "decrypt (patchAtob atob) cipher_abc (Str [x]) = Inr (Str [])" for x
    using decrypt_Str [where a = "patchAtob atob" and s = "[x]" and b = "[]", OF cipher_abc_fields]
    by (simp add: patchAtob_atob_single ctr_transform_Nil TextDecoder_decode_Nil)
  from expandKey_abc enc dec show ?thesis by simp
qed

text \<open>
  C1, amended: for every secret that \<open>expandKey\<close> accepts and every plaintext, of any length,
  \<open>encrypt\<close> returns a string with one character per plaintext byte, and \<open>decrypt\<close>, given
  the bytes whose values are the character codes of that string, returns the plaintext
  bytes. Encryption followed by decryption is the identity on the byte stream when the
  output of \<open>encrypt\<close> reaches \<open>decrypt\<close> as binary data.
\<close>

theorem C1_roundtrip_through_bytes:
  "expandKey secret c0 = Inr (True, c) \<Longrightarrow>
     \<exists>ct. encrypt c (Bytes p) = Inr (Str ct) \<and> length ct = length p
          \<and> decrypt window_atob c (Bytes (map ucast ct)) = Inr (Bytes p)"
proof -
  assume "expandKey secret c0 = Inr (True, c)"
  then obtain k t where kt: "cryptoKey c = Some k" "counter c = Some t" "length t = 16"
    using expandKey_True by blast
  let ?ct = "map ucast (ctr_transform k 128 t p) :: jsstring"
  have "encrypt c (Bytes p) = Inr (Str ?ct)"
    using kt by (rule encrypt_Bytes)
  moreover have "length ?ct = length p"
    by (simp add: length_ctr_transform)
  moreover have "decrypt window_atob c (Bytes (map ucast ?ct)) = Inr (Bytes p)"
    using decrypt_Bytes [OF kt, of window_atob "map ucast ?ct"]
    by (simp add: o_def ucast_byte_roundtrip ctr_transform_twice)
  ultimately show ?thesis by blast
qed


text \<open>The amended C1 at the secret \<open>abc\<close> and the plaintext of one byte \<open>0x78\<close>.\<close>

theorem C1_roundtrip_through_bytes_witness:
  "expandKey (Str (js ''abc'')) AesCtrCipher_new = Inr (True, cipher_abc)
   \<and> (\<exists>ct. encrypt cipher_abc (Bytes [0x78]) = Inr (Str ct) \<and> length ct = length [0x78 :: byte]
          \<and> decrypt (patchAtob atob) cipher_abc (Bytes (map ucast ct)) = Inr (Bytes [0x78]))"
  using expandKey_abc C1_roundtrip_through_bytes [OF expandKey_abc, of "[0x78]" "patchAtob atob"]
  by simp

text \<open>
  C2, as stated, fails: for the secret \<open>abc\<close> the counter block that \<open>expandKey\<close> stores is
  the text \<open>900150983cd24fb0\<close>, the first 16 characters of the hex string of the digest;
  the first 16 bytes of the raw digest are \<open>90 01 50 98 ...\<close>, a different block.
\<close>

theorem C2_counter_is_hex_text_of_digest:
  "expandKey (Str (js ''abc'')) AesCtrCipher_new = Inr (True, cipher_abc)
   \<and> counter cipher_abc
     = Some [0x39, 0x30, 0x30, 0x31, 0x35, 0x30, 0x39, 0x38, 0x33, 0x63, 0x64, 0x32, 0x34, 0x66, 0x62, 0x30]
   \<and> take 16 (md5_digest (TextEncoder_encode (js ''abc'')))
     = [0x90, 0x01, 0x50, 0x98, 0x3c, 0xd2, 0x4f, 0xb0, 0xd6, 0x96, 0x3f, 0x7d, 0x28, 0xe1, 0x7f, 0x72]
   \<and> counter cipher_abc \<noteq> Some (take 16 (md5_digest (TextEncoder_encode (js ''abc''))))"
  using expandKey_abc by (simp add: md5_digest_abc cipher_abc_def counter_abc_bytes)

text \<open>
  C2, amended: the initial counter block is the first 16 bytes of the UTF-8 encoding of
  the hex string of the secret's digest, which are the hex digits of the first 8 bytes of
  the raw digest; it is not a slice of the raw digest bytes.
\<close>

theorem C2_counter_derivation:
  "s \<noteq> [] \<Longrightarrow>
     \<exists>c'. expandKey (Str s) c = Inr (True, c')
        \<and> counter c' = Some (take 16 (TextEncoder_encode (hex_of_bytes (md5_digest (TextEncoder_encode s)))))
        \<and> counter c' = Some (map ucast (hex_of_bytes (take 8 (md5_digest (TextEncoder_encode s)))))"
proof -
  assume "s \<noteq> []"
  have "take 16 (map ucast (hex_of_bytes (md5_digest (TextEncoder_encode s))) :: byte list)
          = map ucast (hex_of_bytes (take 8 (md5_digest (TextEncoder_encode s))))"
    using take_hex_of_bytes [of 8 "md5_digest (TextEncoder_encode s)"] by (simp add: take_map)
  with expandKey_string [OF \<open>s \<noteq> []\<close>, of c] show ?thesis
    by (simp add: keyData_of_digest)
qed

text \<open>The amended C2 at the secret \<open>abc\<close>.\<close>

theorem C2_counter_derivation_witness:
  "js ''abc'' \<noteq> []
   \<and> (\<exists>c'. expandKey (Str (js ''abc'')) AesCtrCipher_new = Inr (True, c')
        \<and> counter c' = Some (take 16 (TextEncoder_encode (hex_of_bytes (md5_digest (TextEncoder_encode (js ''abc''))))))
        \<and> counter c' = Some (map ucast (hex_of_bytes (take 8 (md5_digest (TextEncoder_encode (js ''abc'')))))))"
proof -
  have ne: "js ''abc'' \<noteq> []" by (simp add: js_def)
  from ne C2_counter_derivation [OF ne, of AesCtrCipher_new] show ?thesis by simp
qed

text \<open>
  C3: for an empty or otherwise falsy secret \<open>expandKey\<close> returns false, throws nothing and
  leaves the cipher as it was; in a cipher without a key \<open>encrypt\<close> and \<open>decrypt\<close> return
  their input unchanged and throw nothing.
\<close>

theorem C3_falsy_secret_passthrough:
  "\<not> truthy secret \<Longrightarrow> cryptoKey c = None \<Longrightarrow>
     expandKey secret c = Inr (False, c)
     \<and> encrypt c d = Inr d
     \<and> decrypt window_atob c d = Inr d"
  by (simp add: expandKey_def encrypt_def decrypt_def)

text \<open>C3 at the empty secret on a new cipher, followed by \<open>encrypt("x")\<close> and \<open>decrypt("x")\<close>.\<close>

theorem C3_falsy_secret_passthrough_witness:
  "\<not> truthy (Str []) \<and> cryptoKey AesCtrCipher_new = None
   \<and> expandKey (Str []) AesCtrCipher_new = Inr (False, AesCtrCipher_new)
   \<and> encrypt AesCtrCipher_new (Str (js ''x'')) = Inr (Str (js ''x''))
   \<and> decrypt (patchAtob atob) AesCtrCipher_new (Str (js ''x'')) = Inr (Str (js ''x''))"
proof -
  have a: "\<not> truthy (Str [])" by simp
  have b: "cryptoKey AesCtrCipher_new = None" by (simp add: AesCtrCipher_new_def)
  from a b C3_falsy_secret_passthrough [OF a b, of "Str (js ''x'')" "patchAtob atob"]
  show ?thesis by simp
qed

text \<open>Without the patch the exception of \<open>atob\<close> leaves \<open>decrypt\<close>.\<close>

lemma decrypt_unpatched_throws:
  assumes "expandKey secret c0 = Inr (True, c)" and "atob s = Inl e"
  shows "decrypt atob c (Str s) = Inl e"
proof -
  from assms(1) obtain k where "cryptoKey c = Some k" using expandKey_True by blast
  moreover from assms(2) have "s \<noteq> []" using atob_Nil by auto
  ultimately show ?thesis using assms(2) by (simp add: decrypt_def)
qed

text \<open>
  C4: once \<open>patchAtob\<close> has run, for a cipher with an expanded key and a string on which the
  browser's \<open>atob\<close> throws (text that is not valid base64), the decoder that \<open>decrypt\<close> calls
  returns the empty string, and \<open>decrypt\<close> returns the empty string and throws nothing.
\<close>

theorem C4_malformed_base64:
  "expandKey secret c0 = Inr (True, c) \<Longrightarrow> atob s = Inl e \<Longrightarrow>
     patchAtob atob s = Inr []
     \<and> decrypt (patchAtob atob) c (Str s) = Inr (Str [])"
proof -
  assume ok: "expandKey secret c0 = Inr (True, c)" and bad: "atob s = Inl e"
  from ok obtain k t where kt: "cryptoKey c = Some k" "counter c = Some t" "length t = 16"
    using expandKey_True by blast
  from bad have ne: "s \<noteq> []" using atob_Nil by auto
  from bad have p: "patchAtob atob s = Inr []" by (simp add: patchAtob_def)
  from decrypt_Str [where a = "patchAtob atob" and s = s, OF kt ne p] p show ?thesis
    by (simp add: ctr_transform_Nil TextDecoder_decode_Nil)
qed

text \<open>C4 at the secret \<open>abc\<close> and the input \<open>not-valid-base64!!\<close>.\<close>

theorem C4_malformed_base64_witness:
  "expandKey (Str (js ''abc'')) AesCtrCipher_new = Inr (True, cipher_abc)
   \<and> atob (js ''not-valid-base64!!'') = Inl InvalidCharacterError
   \<and> patchAtob atob (js ''not-valid-base64!!'') = Inr []
   \<and> decrypt (patchAtob atob) cipher_abc (Str (js ''not-valid-base64!!'')) = Inr (Str [])"
  using expandKey_abc atob_not_valid C4_malformed_base64 [OF expandKey_abc atob_not_valid]
  by simp

text \<open>
  C10: in every state of the cipher, also with an expanded key, \<open>encrypt\<close> and \<open>decrypt\<close>
  return a falsy input (the empty string, \<open>null\<close>, \<open>undefined\<close>, \<open>false\<close>, \<open>0\<close>) unchanged.
\<close>

theorem C10_falsy_data_passthrough:
  "\<not> truthy d \<Longrightarrow> encrypt c d = Inr d \<and> decrypt window_atob c d = Inr d"
  by (simp add: encrypt_def decrypt_def)

text \<open>C10 on the cipher expanded from the secret \<open>abc\<close>.\<close>

theorem C10_falsy_data_passthrough_witness:
  "cryptoKey cipher_abc \<noteq> None
   \<and> \<not> truthy (Str [])
   \<and> encrypt cipher_abc (Str []) = Inr (Str [])
   \<and> decrypt (patchAtob atob) cipher_abc (Str []) = Inr (Str [])
   \<and> encrypt cipher_abc Null = Inr Null
   \<and> decrypt (patchAtob atob) cipher_abc Undefined = Inr Undefined"
proof -
  have a: "\<not> truthy (Str [])" by simp
  have b: "\<not> truthy Null" "\<not> truthy Undefined" by simp_all
  from a C10_falsy_data_passthrough [OF a, of cipher_abc "patchAtob atob"]
       C10_falsy_data_passthrough [OF b(1), of cipher_abc "patchAtob atob"]
       C10_falsy_data_passthrough [OF b(2), of cipher_abc "patchAtob atob"]
  show ?thesis by (simp add: cipher_abc_def)
qed


section \<open>Results: DevtoolsDetector\<close>

lemma suspended_after_checkers:
  "suspended (after_checkers b n s) = suspended s"
proof -
  have bl: "suspended (broadcast_loop ls st t) = suspended t" for ls st and t :: "'a detector"
    by (induction ls arbitrary: t) (simp_all split: sum.splits)
  show ?thesis
    by (simp add: after_checkers_def Let_def broadcast_def bl stop_def)
qed

lemma drain_done: "suspended s = [] \<Longrightarrow> drain n w s = s"
  by (cases n) simp_all

lemma suspended_reset: "suspended s = [] \<Longrightarrow> s\<lparr> suspended := [] \<rparr> = s"
  by (cases s) simp

lemma resume_not_enabled:
  assumes "suspended s = []" and "\<not> checker_isEnable c w"
  shows "resume 0 w (loop_head w (c # cs) b n s)
           = loop_head w cs b n (s\<lparr> calls := calls s @ [IsEnable (checker_name c)] \<rparr>)"
proof -
  have eq: "s\<lparr> calls := calls s @ [IsEnable (checker_name c)], suspended := [] \<rparr>
          = s\<lparr> calls := calls s @ [IsEnable (checker_name c)] \<rparr>"
    using assms(1) suspended_reset [of "s\<lparr> calls := calls s @ [IsEnable (checker_name c)] \<rparr>"]
    by simp
  from assms show ?thesis by (simp add: resume_def eq)
qed

lemma resume_enabled:
  assumes "suspended s = []" and "checker_isEnable c w"
  shows "resume 0 w (resume 0 w (loop_head w (c # cs) b n s))
           = (if checker_isOpen c w
              then after_checkers True (checker_name c)
                     (s\<lparr> calls := calls s @ [IsEnable (checker_name c), IsOpen (checker_name c)] \<rparr>)
              else loop_head w cs False (checker_name c)
                     (s\<lparr> calls := calls s @ [IsEnable (checker_name c), IsOpen (checker_name c)] \<rparr>))"
proof -
  have eq: "s\<lparr> calls := calls s @ [IsEnable (checker_name c), IsOpen (checker_name c)], suspended := [] \<rparr>
          = s\<lparr> calls := calls s @ [IsEnable (checker_name c), IsOpen (checker_name c)] \<rparr>"
    using assms(1)
      suspended_reset [of "s\<lparr> calls := calls s @ [IsEnable (checker_name c), IsOpen (checker_name c)] \<rparr>"]
    by simp
  from assms show ?thesis by (simp add: resume_def eq)
qed

lemma for_checkers_Cons:
  "for_checkers w (c # cs) b n s =
     (if checker_isEnable c w then
        (if checker_isOpen c w
         then after_checkers True (checker_name c)
                (s\<lparr> calls := calls s @ [IsEnable (checker_name c), IsOpen (checker_name c)] \<rparr>)
         else for_checkers w cs False (checker_name c)
                (s\<lparr> calls := calls s @ [IsEnable (checker_name c), IsOpen (checker_name c)] \<rparr>))
      else for_checkers w cs b n (s\<lparr> calls := calls s @ [IsEnable (checker_name c)] \<rparr>))"
  by (simp add: Let_def)

lemma suspended_loop_head_Cons: "suspended (loop_head w (c # cs) b n s) \<noteq> []"
  by simp

lemma drain_loop_head:
  "suspended s = [] \<Longrightarrow>
     drain (2 * length cs + k) w (loop_head w cs b n s) = for_checkers w cs b n s"
proof (induction cs arbitrary: b n s k)
  case Nil
  then show ?case by (simp add: drain_done suspended_after_checkers)
next
  case (Cons c cs)
  let ?s1 = "s\<lparr> calls := calls s @ [IsEnable (checker_name c)] \<rparr>"
  let ?s2 = "s\<lparr> calls := calls s @ [IsEnable (checker_name c), IsOpen (checker_name c)] \<rparr>"
  have s1: "suspended ?s1 = []" and s2: "suspended ?s2 = []" using Cons.prems by simp_all
  have fuel: "2 * length (c # cs) + k = Suc (Suc (2 * length cs + k))" by simp
  show ?case
  proof (cases "checker_isEnable c w")
    case False
    have "drain (2 * length (c # cs) + k) w (loop_head w (c # cs) b n s)
            = drain (2 * length cs + Suc k) w (loop_head w cs b n ?s1)"
      unfolding fuel drain.simps(2) [of "Suc (2 * length cs + k)"]
      using suspended_loop_head_Cons [of w c cs b n s]
        resume_not_enabled [OF Cons.prems False, of cs b n]
      by simp
    also have "\<dots> = for_checkers w cs b n ?s1"
      using Cons.IH [OF s1] .
    finally show ?thesis using False by (simp only: for_checkers_Cons if_False)
  next
    case True
    have two: "drain (2 * length (c # cs) + k) w (loop_head w (c # cs) b n s)
            = drain (2 * length cs + k) w (resume 0 w (resume 0 w (loop_head w (c # cs) b n s)))"
    proof -
      have "suspended (resume 0 w (loop_head w (c # cs) b n s)) \<noteq> []"
        using Cons.prems True by (simp add: resume_def)
      then show ?thesis
        unfolding fuel using suspended_loop_head_Cons [of w c cs b n s] by simp
    qed
    show ?thesis
    proof (cases "checker_isOpen c w")
      case isopen: True
      have "drain (2 * length (c # cs) + k) w (loop_head w (c # cs) b n s)
              = drain (2 * length cs + k) w (after_checkers True (checker_name c) ?s2)"
        using two resume_enabled [OF Cons.prems True, of cs b n] isopen by simp
      also have "\<dots> = after_checkers True (checker_name c) ?s2"
        using s2 by (simp add: drain_done suspended_after_checkers)
      finally show ?thesis using True isopen by (simp only: for_checkers_Cons if_True)
    next
      case closed: False
      have "drain (2 * length (c # cs) + k) w (loop_head w (c # cs) b n s)
              = drain (2 * length cs + k) w (loop_head w cs False (checker_name c) ?s2)"
        using two resume_enabled [OF Cons.prems True, of cs b n] closed by simp
      also have "\<dots> = for_checkers w cs False (checker_name c) ?s2"
        using Cons.IH [OF s2] .
      finally show ?thesis using True closed by (simp only: for_checkers_Cons if_True if_False)
    qed
  qed
qed

lemma drain_detectLoop:
  "suspended s = [] \<Longrightarrow>
     drain (2 * length (checkers s)) w (detectLoop_begin w s) = detectLoop w s"
  using drain_loop_head [of s "checkers s" 0 w False "[]"]
  by (simp add: detectLoop_begin_def detectLoop_def)


text \<open>
  Resuming the suspended call until it ends is a run of \<open>Resume\<close> events, so \<open>launch\<close> with
  its first cycle left uninterrupted is the function \<open>launch\<close> above.
\<close>

lemma resume_idle: "suspended s = [] \<Longrightarrow> resume i w s = s"
  by (simp add: resume_def)

lemma run_resume_idle: "suspended s = [] \<Longrightarrow> run s (replicate n (Resume 0 w)) = s"
  by (induction n) (simp_all add: run_def resume_idle)

lemma drain_run: "drain n w s = run s (replicate n (Resume 0 w))"
proof (induction n arbitrary: s)
  case 0
  then show ?case by (simp add: run_def)
next
  case (Suc n)
  show ?case
  proof (cases "suspended s = []")
    case True
    then show ?thesis using run_resume_idle [of s "Suc n" w] by simp
  next
    case False
    then show ?thesis using Suc.IH [of "resume 0 w s"] by (simp add: run_def)
  qed
qed

lemma launch_uninterrupted:
  assumes "suspended s = []"
  shows "run s (Launch w # replicate (2 * length (checkers s)) (Resume 0 w)) = launch w s"
proof -
  let ?s1 = "if detectLoopDelay s \<le> 0 then setDetectDelay 500 s else s"
  have s1: "suspended ?s1 = []" "checkers ?s1 = checkers s"
    using assms by (simp_all add: setDetectDelay_def)
  show ?thesis
  proof (cases "detectLoopStopped ?s1")
    case False
    then have "step s (Launch w) = ?s1" "launch w s = ?s1"
      by (simp_all add: launch_def launch_with_def Let_def)
    then show ?thesis
      using run_resume_idle [OF s1(1), of "2 * length (checkers s)" w] by (simp add: run_def)
  next
    case True
    let ?s2 = "?s1\<lparr> detectLoopStopped := False \<rparr>"
    have s2: "suspended ?s2 = []" "checkers ?s2 = checkers s" using s1 by simp_all
    have "run s (Launch w # replicate (2 * length (checkers s)) (Resume 0 w))
            = drain (2 * length (checkers ?s2)) w (detectLoop_begin w ?s2)"
      using True s2 by (simp add: drain_run run_def launch_with_def Let_def)
    also have "\<dots> = detectLoop w ?s2"
      using s2(1) by (rule drain_detectLoop)
    also have "\<dots> = launch w s"
      using True by (simp add: launch_def launch_with_def Let_def)
    finally show ?thesis .
  qed
qed

lemma broadcast_loop_eq:
  "broadcast_loop ls st s = s\<lparr> notified := notified s @ map (\<lambda>l. (listener_id l, st)) ls \<rparr>"
  by (induction ls arbitrary: s) (simp_all split: sum.splits)

lemma broadcast_eq:
  "broadcast st s =
     s\<lparr> broadcasts := broadcasts s @ [st],
        notified := notified s @ map (\<lambda>l. (listener_id l, st)) (listeners s) \<rparr>"
  by (simp add: broadcast_def broadcast_loop_eq)

lemma calls_after_checkers: "calls (after_checkers b n s) = calls s"
  by (simp add: after_checkers_def Let_def broadcast_eq stop_def)

lemma for_checkers_shape:
  "\<exists>b' n' tr. for_checkers w cs b n s = after_checkers b' n' (s\<lparr> calls := calls s @ tr \<rparr>)"
proof (induction cs arbitrary: b n s)
  case Nil
  have "for_checkers w [] b n s = after_checkers b n (s\<lparr> calls := calls s @ [] \<rparr>)" by simp
  then show ?case by blast
next
  case (Cons c cs)
  let ?s1 = "s\<lparr> calls := calls s @ [IsEnable (checker_name c)] \<rparr>"
  let ?s2 = "s\<lparr> calls := calls s @ [IsEnable (checker_name c), IsOpen (checker_name c)] \<rparr>"
  consider (skip) "\<not> checker_isEnable c w"
    | (hit) "checker_isEnable c w" "checker_isOpen c w"
    | (miss) "checker_isEnable c w" "\<not> checker_isOpen c w" by blast
  then show ?case
  proof cases
    case skip
    from Cons.IH [of b n ?s1] obtain b' n' tr where
      "for_checkers w cs b n ?s1 = after_checkers b' n' (?s1\<lparr> calls := calls ?s1 @ tr \<rparr>)" by blast
    then have "for_checkers w (c # cs) b n s
                 = after_checkers b' n' (s\<lparr> calls := calls s @ (IsEnable (checker_name c) # tr) \<rparr>)"
      using skip by (simp add: for_checkers_Cons)
    then show ?thesis by blast
  next
    case hit
    then have "for_checkers w (c # cs) b n s = after_checkers True (checker_name c) ?s2"
      by (simp add: for_checkers_Cons)
    then show ?thesis by blast
  next
    case miss
    from Cons.IH [of False "checker_name c" ?s2] obtain b' n' tr where
      "for_checkers w cs False (checker_name c) ?s2
         = after_checkers b' n' (?s2\<lparr> calls := calls ?s2 @ tr \<rparr>)" by blast
    then have "for_checkers w (c # cs) b n s
                 = after_checkers b' n'
                     (s\<lparr> calls := calls s @ (IsEnable (checker_name c) # IsOpen (checker_name c) # tr) \<rparr>)"
      using miss by (simp add: for_checkers_Cons)
    then show ?thesis by blast
  qed
qed

lemma calls_for_checkers:
  "calls (for_checkers w cs b n s) =
     calls s @ concat (map (\<lambda>c. IsEnable (checker_name c)
                                # (if checker_isEnable c w then [IsOpen (checker_name c)] else []))
       (takeWhile (\<lambda>c. \<not> (checker_isEnable c w \<and> checker_isOpen c w)) cs
        @ take 1 (dropWhile (\<lambda>c. \<not> (checker_isEnable c w \<and> checker_isOpen c w)) cs)))"
  by (induction cs arbitrary: b n s) (simp_all add: Let_def calls_after_checkers)

lemma after_checkers_broadcast:
  assumes "broadcasts (after_checkers b n s) = broadcasts s @ [st]"
  shows "notified (after_checkers b n s)
           = notified s @ map (\<lambda>l. (listener_id l, st)) (listeners s)"
    and "detectLoopDelay s > 0 \<and> \<not> detectLoopStopped s \<longrightarrow>
           timer (after_checkers b n s) = Some (nextTimer s)
           \<and> pending (after_checkers b n s) = pending s @ [nextTimer s]
           \<and> \<not> detectLoopStopped (after_checkers b n s)"
  using assms
  by (auto simp: after_checkers_def Let_def broadcast_eq stop_def split: if_splits)

text \<open>
  C8: \<open>broadcast\<close> calls every registered listener, in the order of registration and with
  the same status, whichever of them throw. When a poll cycle broadcasts a status, every
  listener is called with it, and a cycle of a running detector with a positive delay
  then sets the timeout for the next cycle: a throwing listener does not end the loop.
\<close>

theorem C8_listener_failure_isolated:
  "notified (broadcast st s) = notified s @ map (\<lambda>l. (listener_id l, st)) (listeners s)
   \<and> (broadcasts (detectLoop w s) = broadcasts s @ [st] \<longrightarrow>
        notified (detectLoop w s) = notified s @ map (\<lambda>l. (listener_id l, st)) (listeners s)
        \<and> (detectLoopDelay s > 0 \<and> \<not> detectLoopStopped s \<longrightarrow>
             timer (detectLoop w s) = Some (nextTimer s)
             \<and> pending (detectLoop w s) = pending s @ [nextTimer s]
             \<and> \<not> detectLoopStopped (detectLoop w s)))"
proof -
  obtain b n tr where eq:
    "detectLoop w s = after_checkers b n (s\<lparr> calls := calls s @ tr \<rparr>)"
    using for_checkers_shape [of w "checkers s" False "[]" s] by (auto simp: detectLoop_def)
  let ?s = "s\<lparr> calls := calls s @ tr \<rparr>"
  show ?thesis
    using after_checkers_broadcast [of b n ?s st]
    by (simp add: eq broadcast_eq)
qed

text \<open>C8 with two listeners of which the first throws, in the first cycle of a detector.\<close>

theorem C8_listener_failure_isolated_witness:
  "broadcasts (detectLoop () ((DevtoolsDetector_new [checker_x])
       \<lparr> listeners := [listener_throwing, listener_1], detectLoopStopped := False \<rparr>))
     = [\<lparr> status_isOpen = True, checkerName = js ''x'' \<rparr>]
   \<and> listener_throws listener_throwing \<lparr> status_isOpen = True, checkerName = js ''x'' \<rparr>
   \<and> notified (detectLoop () ((DevtoolsDetector_new [checker_x])
       \<lparr> listeners := [listener_throwing, listener_1], detectLoopStopped := False \<rparr>))
     = [(2, \<lparr> status_isOpen = True, checkerName = js ''x'' \<rparr>),
        (1, \<lparr> status_isOpen = True, checkerName = js ''x'' \<rparr>)]
   \<and> timer (detectLoop () ((DevtoolsDetector_new [checker_x])
       \<lparr> listeners := [listener_throwing, listener_1], detectLoopStopped := False \<rparr>)) = Some 0
   \<and> pending (detectLoop () ((DevtoolsDetector_new [checker_x])
       \<lparr> listeners := [listener_throwing, listener_1], detectLoopStopped := False \<rparr>)) = [0]"
proof -
  let ?s = "(DevtoolsDetector_new [checker_x])
              \<lparr> listeners := [listener_throwing, listener_1], detectLoopStopped := False \<rparr>"
  let ?st = "\<lparr> status_isOpen = True, checkerName = js ''x'' \<rparr>"
  have b: "broadcasts (detectLoop () ?s) = broadcasts ?s @ [?st]"
    by (simp add: detectLoop_def DevtoolsDetector_new_def checker_x_def after_checkers_def
          broadcast_eq Let_def)
  have t: "listener_throws listener_throwing ?st"
    by (simp add: listener_throwing_def)
  from C8_listener_failure_isolated [of ?st ?s "()"] b t show ?thesis
    by (simp add: DevtoolsDetector_new_def listener_throwing_def listener_1_def)
qed

text \<open>
  A poll cycle in closed form: the result and the name that reach the code after the loop,
  and the calls made, in terms of the checkers and their answers.
\<close>

lemma for_checkers_eq:
  fixes w :: 'w and cs :: "'w checker list" and s :: "'w detector"
  shows "for_checkers w cs b n s =
     after_checkers
       (if \<exists>c \<in> set cs. checker_isEnable c w \<and> checker_isOpen c w then True
        else if \<exists>c \<in> set cs. checker_isEnable c w then False else b)
       (if filter (\<lambda>c. checker_isEnable c w)
             (takeWhile (\<lambda>c. \<not> (checker_isEnable c w \<and> checker_isOpen c w)) cs
              @ take 1 (dropWhile (\<lambda>c. \<not> (checker_isEnable c w \<and> checker_isOpen c w)) cs)) = []
        then n
        else checker_name (last (filter (\<lambda>c. checker_isEnable c w)
             (takeWhile (\<lambda>c. \<not> (checker_isEnable c w \<and> checker_isOpen c w)) cs
              @ take 1 (dropWhile (\<lambda>c. \<not> (checker_isEnable c w \<and> checker_isOpen c w)) cs)))))
       (s\<lparr> calls := calls s @ concat (map (\<lambda>c. IsEnable (checker_name c)
                                # (if checker_isEnable c w then [IsOpen (checker_name c)] else []))
             (takeWhile (\<lambda>c. \<not> (checker_isEnable c w \<and> checker_isOpen c w)) cs
              @ take 1 (dropWhile (\<lambda>c. \<not> (checker_isEnable c w \<and> checker_isOpen c w)) cs))) \<rparr>)"
proof -
  define hit where "hit = (\<lambda>c :: 'w checker. checker_isEnable c w \<and> checker_isOpen c w)"
  define asked where
    "asked = (\<lambda>cs. takeWhile (\<lambda>c. \<not> hit c) cs @ take 1 (dropWhile (\<lambda>c. \<not> hit c) cs))"
  define res where
    "res = (\<lambda>b cs. if \<exists>c \<in> set cs. hit c then True
                     else if \<exists>c \<in> set cs. checker_isEnable c w then False else b)"
  define nm where
    "nm = (\<lambda>n cs. if filter (\<lambda>c. checker_isEnable c w) (asked cs) = [] then n
                    else checker_name (last (filter (\<lambda>c. checker_isEnable c w) (asked cs))))"
  define tr where
    "tr = (\<lambda>cs. concat (map (\<lambda>c. IsEnable (checker_name c)
                                # (if checker_isEnable c w then [IsOpen (checker_name c)] else []))
                   (asked cs)))"
  have hit_iff: "hit c \<longleftrightarrow> checker_isEnable c w \<and> checker_isOpen c w" for c
    by (simp add: hit_def)
  have asked_Nil: "asked [] = []"
    and asked_Cons: "asked (c # cs) = (if hit c then [c] else c # asked cs)" for c cs
    by (simp_all add: asked_def)
  have res_Nil: "res b [] = b" for b
    by (simp add: res_def)
  have res_Cons: "res b (c # cs) = (if hit c then True
                                    else if checker_isEnable c w then res False cs else res b cs)"
    for b c cs
    by (simp add: res_def)
  have nm_Nil: "nm n [] = n" for n
    by (simp add: nm_def asked_Nil)
  have nm_Cons: "nm n (c # cs) = (if hit c then checker_name c
                                  else if checker_isEnable c w then nm (checker_name c) cs
                                  else nm n cs)" for n c cs
    by (simp add: nm_def asked_Cons hit_iff)
  have tr_Nil: "tr [] = []"
    by (simp add: tr_def asked_Nil)
  have tr_Cons: "tr (c # cs) = IsEnable (checker_name c)
                    # (if checker_isEnable c w then [IsOpen (checker_name c)] else [])
                    @ (if hit c then [] else tr cs)" for c cs
    by (simp add: tr_def asked_Cons)
  have main: "for_checkers w cs b n s
                = after_checkers (res b cs) (nm n cs) (s\<lparr> calls := calls s @ tr cs \<rparr>)"
    for cs b n and s :: "'w detector"
  proof (induction cs arbitrary: b n s)
    case Nil
    show ?case by (simp add: res_Nil nm_Nil tr_Nil)
  next
    case (Cons c cs)
    consider (skip) "\<not> checker_isEnable c w"
      | (found) "checker_isEnable c w" "checker_isOpen c w"
      | (miss) "checker_isEnable c w" "\<not> checker_isOpen c w" by blast
    then show ?case
    proof cases
      case skip
      then have "\<not> hit c" by (simp add: hit_iff)
      with skip show ?thesis
        by (simp add: for_checkers_Cons Cons.IH res_Cons nm_Cons tr_Cons)
    next
      case found
      then have "hit c" by (simp add: hit_iff)
      with found show ?thesis
        by (simp add: for_checkers_Cons res_Cons nm_Cons tr_Cons)
    next
      case miss
      then have "\<not> hit c" by (simp add: hit_iff)
      with miss show ?thesis
        by (simp add: for_checkers_Cons Cons.IH res_Cons nm_Cons tr_Cons)
    qed
  qed
  show ?thesis
    using main [of cs b n s] unfolding res_def nm_def tr_def asked_def hit_def .
qed

lemma after_checkers_fields:
  "broadcasts (after_checkers b n s)
     = broadcasts s @ (if b \<noteq> isOpen s then [\<lparr> status_isOpen = b, checkerName = n \<rparr>] else [])"
  "notified (after_checkers b n s)
     = notified s @ (if b \<noteq> isOpen s
                     then map (\<lambda>l. (listener_id l, \<lparr> status_isOpen = b, checkerName = n \<rparr>)) (listeners s)
                     else [])"
  "detectLoopDelay s > 0 \<and> \<not> detectLoopStopped s \<Longrightarrow>
     isOpen (after_checkers b n s) = b
     \<and> timer (after_checkers b n s) = Some (nextTimer s)
     \<and> pending (after_checkers b n s) = pending s @ [nextTimer s]
     \<and> nextTimer (after_checkers b n s) = Suc (nextTimer s)
     \<and> \<not> detectLoopStopped (after_checkers b n s)"
  by (auto simp: after_checkers_def Let_def broadcast_eq stop_def)

text \<open>
  C5: in a poll cycle the checkers are asked in the order of registration, \<open>isOpen()\<close> only
  where \<open>isEnable()\<close> holds, up to and including the first checker that is enabled and
  reports open, and no further. The result of the cycle is open exactly if such a checker
  exists. In every state the cycle broadcasts exactly when its result differs from the
  stored \<open>isOpen\<close>: then once, to every listener, with the result and the name of the last
  enabled checker that was asked; otherwise not at all. A running detector stores the
  result and sets the next timeout. With three checkers of which only the second is
  enabled, and it reports open, the cycle started by \<open>launch\<close> makes exactly one broadcast,
  with \<open>isOpen = true\<close> and the name of the second checker; the next cycle, when the timeout
  fires in an unchanged state, asks the checkers again, makes no further broadcast and sets
  the next timeout.
\<close>

theorem C5_poll_cycle:
  "(let hit = (\<lambda>c. checker_isEnable c w \<and> checker_isOpen c w);
        asked = takeWhile (\<lambda>c. \<not> hit c) (checkers s) @ take 1 (dropWhile (\<lambda>c. \<not> hit c) (checkers s));
        enabled = filter (\<lambda>c. checker_isEnable c w) asked;
        result = (\<exists>c \<in> set (checkers s). hit c);
        st = \<lparr> status_isOpen = result,
               checkerName = (if enabled = [] then [] else checker_name (last enabled)) \<rparr>
    in calls (detectLoop w s)
         = calls s @ concat (map (\<lambda>c. IsEnable (checker_name c)
                                  # (if checker_isEnable c w then [IsOpen (checker_name c)] else []))
                               asked)
       \<and> broadcasts (detectLoop w s) = broadcasts s @ (if result \<noteq> isOpen s then [st] else [])
       \<and> notified (detectLoop w s)
           = notified s @ (if result \<noteq> isOpen s
                           then map (\<lambda>l. (listener_id l, st)) (listeners s) else [])
       \<and> (detectLoopDelay s > 0 \<and> \<not> detectLoopStopped s \<longrightarrow>
             isOpen (detectLoop w s) = result
             \<and> timer (detectLoop w s) = Some (nextTimer s)
             \<and> pending (detectLoop w s) = pending s @ [nextTimer s]))
   \<and> (\<not> checker_isEnable c1 w \<and> checker_isEnable c2 w \<and> checker_isOpen c2 w
        \<and> \<not> checker_isEnable c3 w
        \<and> \<not> checker_isEnable c1 w' \<and> checker_isEnable c2 w' \<and> checker_isOpen c2 w'
        \<and> \<not> checker_isEnable c3 w' \<longrightarrow>
      (let s1 = launch w ((DevtoolsDetector_new [c1, c2, c3])\<lparr> listeners := ls \<rparr>);
           s2 = tick 0 w' s1;
           st2 = \<lparr> status_isOpen = True, checkerName = checker_name c2 \<rparr>
       in broadcasts s1 = [st2]
          \<and> notified s1 = map (\<lambda>l. (listener_id l, st2)) ls
          \<and> calls s1 = [IsEnable (checker_name c1), IsEnable (checker_name c2), IsOpen (checker_name c2)]
          \<and> isOpen s1 \<and> \<not> detectLoopStopped s1 \<and> timer s1 = Some 0 \<and> pending s1 = [0]
          \<and> broadcasts s2 = [st2]
          \<and> notified s2 = map (\<lambda>l. (listener_id l, st2)) ls
          \<and> calls s2 = [IsEnable (checker_name c1), IsEnable (checker_name c2), IsOpen (checker_name c2),
                        IsEnable (checker_name c1), IsEnable (checker_name c2), IsOpen (checker_name c2)]
          \<and> isOpen s2 \<and> \<not> detectLoopStopped s2 \<and> timer s2 = Some 1 \<and> pending s2 = [1]))"
proof (rule conjI)
  let ?hit = "\<lambda>c. checker_isEnable c w \<and> checker_isOpen c w"
  let ?asked = "takeWhile (\<lambda>c. \<not> ?hit c) (checkers s) @ take 1 (dropWhile (\<lambda>c. \<not> ?hit c) (checkers s))"
  let ?result = "\<exists>c \<in> set (checkers s). ?hit c"
  let ?name = "if filter (\<lambda>c. checker_isEnable c w) ?asked = [] then []
               else checker_name (last (filter (\<lambda>c. checker_isEnable c w) ?asked))"
  let ?s = "s\<lparr> calls := calls s @ concat (map (\<lambda>c. IsEnable (checker_name c)
                                  # (if checker_isEnable c w then [IsOpen (checker_name c)] else []))
                               ?asked) \<rparr>"
  have res: "(if \<exists>c \<in> set (checkers s). ?hit c then True
              else if \<exists>c \<in> set (checkers s). checker_isEnable c w then False else False) = ?result"
    by simp
  have eq: "detectLoop w s = after_checkers ?result ?name ?s"
    unfolding detectLoop_def for_checkers_eq [of w "checkers s" False "[]" s] res ..
  show "let hit = (\<lambda>c. checker_isEnable c w \<and> checker_isOpen c w);
        asked = takeWhile (\<lambda>c. \<not> hit c) (checkers s) @ take 1 (dropWhile (\<lambda>c. \<not> hit c) (checkers s));
        enabled = filter (\<lambda>c. checker_isEnable c w) asked;
        result = (\<exists>c \<in> set (checkers s). hit c);
        st = \<lparr> status_isOpen = result,
               checkerName = (if enabled = [] then [] else checker_name (last enabled)) \<rparr>
    in calls (detectLoop w s)
         = calls s @ concat (map (\<lambda>c. IsEnable (checker_name c)
                                  # (if checker_isEnable c w then [IsOpen (checker_name c)] else []))
                               asked)
       \<and> broadcasts (detectLoop w s) = broadcasts s @ (if result \<noteq> isOpen s then [st] else [])
       \<and> notified (detectLoop w s)
           = notified s @ (if result \<noteq> isOpen s
                           then map (\<lambda>l. (listener_id l, st)) (listeners s) else [])
       \<and> (detectLoopDelay s > 0 \<and> \<not> detectLoopStopped s \<longrightarrow>
             isOpen (detectLoop w s) = result
             \<and> timer (detectLoop w s) = Some (nextTimer s)
             \<and> pending (detectLoop w s) = pending s @ [nextTimer s])"
    unfolding Let_def eq
    using after_checkers_fields(3) [of ?s ?result ?name]
    by (simp add: calls_after_checkers after_checkers_fields(1,2))
next
  show "\<not> checker_isEnable c1 w \<and> checker_isEnable c2 w \<and> checker_isOpen c2 w
        \<and> \<not> checker_isEnable c3 w
        \<and> \<not> checker_isEnable c1 w' \<and> checker_isEnable c2 w' \<and> checker_isOpen c2 w'
        \<and> \<not> checker_isEnable c3 w' \<longrightarrow>
      (let s1 = launch w ((DevtoolsDetector_new [c1, c2, c3])\<lparr> listeners := ls \<rparr>);
           s2 = tick 0 w' s1;
           st2 = \<lparr> status_isOpen = True, checkerName = checker_name c2 \<rparr>
       in broadcasts s1 = [st2]
          \<and> notified s1 = map (\<lambda>l. (listener_id l, st2)) ls
          \<and> calls s1 = [IsEnable (checker_name c1), IsEnable (checker_name c2), IsOpen (checker_name c2)]
          \<and> isOpen s1 \<and> \<not> detectLoopStopped s1 \<and> timer s1 = Some 0 \<and> pending s1 = [0]
          \<and> broadcasts s2 = [st2]
          \<and> notified s2 = map (\<lambda>l. (listener_id l, st2)) ls
          \<and> calls s2 = [IsEnable (checker_name c1), IsEnable (checker_name c2), IsOpen (checker_name c2),
                        IsEnable (checker_name c1), IsEnable (checker_name c2), IsOpen (checker_name c2)]
          \<and> isOpen s2 \<and> \<not> detectLoopStopped s2 \<and> timer s2 = Some 1 \<and> pending s2 = [1])"
    by (simp add: launch_def launch_with_def tick_def timeout_with_def detectLoop_def
          DevtoolsDetector_new_def setDetectDelay_def after_checkers_def broadcast_eq Let_def)
qed

text \<open>
  C5 with three concrete checkers and two listeners: a cycle that finds the tools open
  from the closed state, the same cycle from the open state (no broadcast), a cycle that
  finds them closed from the open state (one broadcast of \<open>false\<close>), and \<open>launch\<close> followed
  by the timeout.
\<close>

theorem C5_poll_cycle_witness:
  "calls (detectLoop () ((DevtoolsDetector_new [checker_a, checker_b, checker_c])
        \<lparr> listeners := [listener_throwing, listener_1], detectLoopStopped := False \<rparr>))
     = [IsEnable (js ''a''), IsEnable (js ''b''), IsOpen (js ''b'')]
   \<and> broadcasts (detectLoop () ((DevtoolsDetector_new [checker_a, checker_b, checker_c])
        \<lparr> listeners := [listener_throwing, listener_1], detectLoopStopped := False \<rparr>))
     = [\<lparr> status_isOpen = True, checkerName = js ''b'' \<rparr>]
   \<and> notified (detectLoop () ((DevtoolsDetector_new [checker_a, checker_b, checker_c])
        \<lparr> listeners := [listener_throwing, listener_1], detectLoopStopped := False \<rparr>))
     = [(2, \<lparr> status_isOpen = True, checkerName = js ''b'' \<rparr>),
        (1, \<lparr> status_isOpen = True, checkerName = js ''b'' \<rparr>)]
   \<and> isOpen (detectLoop () ((DevtoolsDetector_new [checker_a, checker_b, checker_c])
        \<lparr> listeners := [listener_throwing, listener_1], detectLoopStopped := False \<rparr>))
   \<and> pending (detectLoop () ((DevtoolsDetector_new [checker_a, checker_b, checker_c])
        \<lparr> listeners := [listener_throwing, listener_1], detectLoopStopped := False \<rparr>)) = [0]
   \<and> broadcasts (detectLoop () ((DevtoolsDetector_new [checker_a, checker_b, checker_c])
        \<lparr> listeners := [listener_throwing, listener_1], detectLoopStopped := False,
          isOpen := True \<rparr>)) = []
   \<and> notified (detectLoop () ((DevtoolsDetector_new [checker_a, checker_b, checker_c])
        \<lparr> listeners := [listener_throwing, listener_1], detectLoopStopped := False,
          isOpen := True \<rparr>)) = []
   \<and> broadcasts (detectLoop () ((DevtoolsDetector_new [checker_a, checker_c])
        \<lparr> listeners := [listener_throwing, listener_1], detectLoopStopped := False,
          isOpen := True \<rparr>)) = [\<lparr> status_isOpen = False, checkerName = [] \<rparr>]
   \<and> broadcasts (launch () ((DevtoolsDetector_new [checker_a, checker_b, checker_c])
        \<lparr> listeners := [listener_throwing, listener_1] \<rparr>))
     = [\<lparr> status_isOpen = True, checkerName = js ''b'' \<rparr>]
   \<and> broadcasts (tick 0 () (launch () ((DevtoolsDetector_new [checker_a, checker_b, checker_c])
        \<lparr> listeners := [listener_throwing, listener_1] \<rparr>)))
     = [\<lparr> status_isOpen = True, checkerName = js ''b'' \<rparr>]
   \<and> calls (tick 0 () (launch () ((DevtoolsDetector_new [checker_a, checker_b, checker_c])
        \<lparr> listeners := [listener_throwing, listener_1] \<rparr>)))
     = [IsEnable (js ''a''), IsEnable (js ''b''), IsOpen (js ''b''),
        IsEnable (js ''a''), IsEnable (js ''b''), IsOpen (js ''b'')]
   \<and> pending (tick 0 () (launch () ((DevtoolsDetector_new [checker_a, checker_b, checker_c])
        \<lparr> listeners := [listener_throwing, listener_1] \<rparr>))) = [1]"
  using
    C5_poll_cycle [of "()" "(DevtoolsDetector_new [checker_a, checker_b, checker_c])
        \<lparr> listeners := [listener_throwing, listener_1], detectLoopStopped := False \<rparr>"
      checker_a checker_b checker_c "()" "[listener_throwing, listener_1]"]
    C5_poll_cycle [of "()" "(DevtoolsDetector_new [checker_a, checker_b, checker_c])
        \<lparr> listeners := [listener_throwing, listener_1], detectLoopStopped := False,
          isOpen := True \<rparr>"
      checker_a checker_b checker_c "()" "[listener_throwing, listener_1]"]
    C5_poll_cycle [of "()" "(DevtoolsDetector_new [checker_a, checker_c])
        \<lparr> listeners := [listener_throwing, listener_1], detectLoopStopped := False,
          isOpen := True \<rparr>"
      checker_a checker_b checker_c "()" "[listener_throwing, listener_1]"]
  by (simp add: checker_a_def checker_b_def checker_c_def DevtoolsDetector_new_def
        listener_throwing_def listener_1_def Let_def)

text \<open>
  C6 fails on the code when \<open>stop()\<close> is called while a poll cycle is suspended at an
  \<open>await\<close>. Here \<open>launch()\<close> is followed at once by \<open>stop()\<close>: when \<open>stop\<close> has returned the
  detector is marked stopped, \<open>isOpen\<close> is false, no timeout is pending and no listener has
  been called. The suspended cycle then resumes, finds the checker open, sets \<open>isOpen\<close> to
  true and calls the listener, although the detector is stopped.
\<close>

theorem C6_broadcast_after_stop:
  "detectLoopStopped (run (DevtoolsDetector_new [checker_x]) [AddListener listener_1, Launch (), Stop])
   \<and> \<not> isOpen (run (DevtoolsDetector_new [checker_x]) [AddListener listener_1, Launch (), Stop])
   \<and> pending (run (DevtoolsDetector_new [checker_x]) [AddListener listener_1, Launch (), Stop]) = []
   \<and> notified (run (DevtoolsDetector_new [checker_x]) [AddListener listener_1, Launch (), Stop]) = []
   \<and> notified (run (DevtoolsDetector_new [checker_x])
        [AddListener listener_1, Launch (), Stop, Resume 0 (), Resume 0 ()])
       = [(1, \<lparr> status_isOpen = True, checkerName = js ''x'' \<rparr>)]
   \<and> isOpen (run (DevtoolsDetector_new [checker_x])
        [AddListener listener_1, Launch (), Stop, Resume 0 (), Resume 0 ()])
   \<and> detectLoopStopped (run (DevtoolsDetector_new [checker_x])
        [AddListener listener_1, Launch (), Stop, Resume 0 (), Resume 0 ()])"
  by (simp add: run_def DevtoolsDetector_new_def addListener_def launch_with_def
        detectLoop_begin_def stop_def clearTimeout_def resume_def after_checkers_def
        broadcast_eq Let_def checker_x_def listener_1_def)

lemma stop_between_cycles:
  assumes "\<not> detectLoopStopped s" and "suspended s = []"
    and "set (pending s) \<subseteq> set_option (timer s)"
    and "\<forall>e \<in> set evs. (\<exists>i w. e = Timeout i w) \<or> (\<exists>i w. e = Resume i w)"
  shows "detectLoopStopped (stop s) \<and> \<not> isOpen (stop s) \<and> pending (stop s) = []
         \<and> run (stop s) evs = stop s"
proof -
  have p: "pending (stop s) = []" and q: "suspended (stop s) = []"
    using assms(1-3)
    by (auto simp: stop_def clearTimeout_def removeAll_filter_not_eq filter_empty_conv
          split: option.splits)
  have idle: "step t e = t"
    if "pending t = []" "suspended t = []" "(\<exists>i w. e = Timeout i w) \<or> (\<exists>i w. e = Resume i w)"
    for t :: "'a detector" and e
    using that by (auto simp: timeout_with_def resume_def)
  have "foldl step t evs = t" if "pending t = []" "suspended t = []" for t :: "'a detector"
    using assms(4) that by (induction evs) (simp_all add: idle)
  with p q assms(1) show ?thesis by (simp add: run_def stop_def)
qed


text \<open>
  The functions that run a poll cycle without interruption keep the detector between
  cycles, where \<open>stop\<close> is final (\<open>stop_between_cycles\<close>).
\<close>

lemma quiet_after_checkers:
  assumes "suspended s = []" and "pending s = []"
  shows "quiet (after_checkers b n s)"
  using assms
  by (auto simp: quiet_def after_checkers_def Let_def broadcast_eq stop_def clearTimeout_def
        split: option.splits)

lemma for_checkers_quiet:
  assumes "suspended s = []" and "pending s = []"
  shows "quiet (for_checkers w cs b n s)"
proof -
  obtain b' n' tr where
    "for_checkers w cs b n s = after_checkers b' n' (s\<lparr> calls := calls s @ tr \<rparr>)"
    using for_checkers_shape [of w cs b n s] by blast
  then show ?thesis using assms quiet_after_checkers [of "s\<lparr> calls := calls s @ tr \<rparr>" b' n']
    by simp
qed

lemma quiet_launch:
  assumes "quiet s"
  shows "quiet (launch w s)"
proof -
  let ?s1 = "if detectLoopDelay s \<le> 0 then setDetectDelay 500 s else s"
  have q1: "quiet ?s1" using assms by (simp add: quiet_def setDetectDelay_def)
  show ?thesis
  proof (cases "detectLoopStopped ?s1")
    case False
    with q1 show ?thesis by (simp add: launch_def launch_with_def Let_def)
  next
    case True
    with q1 have "suspended (?s1\<lparr> detectLoopStopped := False \<rparr>) = []"
      and "pending (?s1\<lparr> detectLoopStopped := False \<rparr>) = []"
      by (simp_all add: quiet_def)
    then have "quiet (detectLoop w (?s1\<lparr> detectLoopStopped := False \<rparr>))"
      unfolding detectLoop_def by (rule for_checkers_quiet)
    with True show ?thesis by (simp add: launch_def launch_with_def Let_def)
  qed
qed

lemma removeAll_only: "set xs \<subseteq> {x} \<Longrightarrow> removeAll x xs = []"
  by (auto simp: removeAll_filter_not_eq filter_empty_conv)

lemma quiet_tick: "quiet s \<Longrightarrow> quiet (tick i w s)"
proof -
  assume q: "quiet s"
  show ?thesis
  proof (cases "i \<in> set (pending s)")
    case False
    with q show ?thesis by (simp add: tick_def timeout_with_def)
  next
    case True
    with q have "timer s = Some i" by (auto simp: quiet_def split: option.splits)
    with q have "removeAll i (pending s) = []" by (auto simp: quiet_def removeAll_only)
    moreover from q have "suspended s = []" by (simp add: quiet_def)
    ultimately have "quiet (detectLoop w (s\<lparr> pending := removeAll i (pending s) \<rparr>))"
      unfolding detectLoop_def by (intro for_checkers_quiet) simp_all
    with True show ?thesis by (simp add: tick_def timeout_with_def)
  qed
qed

lemma quiet_stop: "quiet s \<Longrightarrow> quiet (stop s)"
  by (auto simp: quiet_def stop_def clearTimeout_def removeAll_only split: option.splits)

lemma quiet_new: "quiet (DevtoolsDetector_new cs)"
  by (simp add: quiet_def DevtoolsDetector_new_def)


section \<open>Results: Mp4Player\<close>

lemma Mp4Player_setup_cases:
  "Mp4Player_setup caps =
     (if isServiceWorkerSupported caps \<and> \<not> isEdgeAndroid caps
           \<and> \<not> isHeyTapBrowser caps \<and> isChromeVersionOk caps
      then Mp4PlayerSW
      else if isMediaSourceSupported caps then Mp4PlayerBox else Mp4PlayerNative)"
  by (simp add: Mp4Player_setup_def new_backend_def)

text \<open>
  The test \<open>!playerImplementation\<close> before the raw-video implementation never holds.
\<close>

lemma Mp4PlayerVideo_not_selected: "Mp4Player_setup caps \<noteq> Mp4PlayerVideo"
  by (simp add: Mp4Player_setup_cases)

text \<open>
  C7, as stated, fails: with every capability false the chain ends in its unconditional
  \<open>else\<close> branch, which builds the native implementation; the raw-video implementation
  is not selected.
\<close>

theorem C7_all_false_selects_native:
  "Mp4Player_setup \<lparr> isMediaSourceSupported = False, isServiceWorkerSupported = False,
       isEdgeAndroid = False, isHeyTapBrowser = False, isChromeVersionOk = False \<rparr>
     = Mp4PlayerNative
   \<and> Mp4Player_setup \<lparr> isMediaSourceSupported = False, isServiceWorkerSupported = False,
       isEdgeAndroid = False, isHeyTapBrowser = False, isChromeVersionOk = False \<rparr>
     \<noteq> Mp4PlayerVideo"
  by (simp add: Mp4Player_setup_def new_backend_def)

text \<open>
  C7, amended: the selection is a first-match chain. The service-worker implementation is
  chosen when the service worker facility is present, the browser is neither of the two
  deny-listed ones and the version gate holds; else the media-source implementation when
  that facility is present; else the native implementation, with no further condition, so
  also when every capability is false.
\<close>

theorem C7_selection_chain:
  "(isServiceWorkerSupported caps \<and> \<not> isEdgeAndroid caps \<and> \<not> isHeyTapBrowser caps
      \<and> isChromeVersionOk caps \<longrightarrow> Mp4Player_setup caps = Mp4PlayerSW)
   \<and> (\<not> (isServiceWorkerSupported caps \<and> \<not> isEdgeAndroid caps \<and> \<not> isHeyTapBrowser caps
          \<and> isChromeVersionOk caps) \<and> isMediaSourceSupported caps
        \<longrightarrow> Mp4Player_setup caps = Mp4PlayerBox)
   \<and> (\<not> (isServiceWorkerSupported caps \<and> \<not> isEdgeAndroid caps \<and> \<not> isHeyTapBrowser caps
          \<and> isChromeVersionOk caps) \<and> \<not> isMediaSourceSupported caps
        \<longrightarrow> Mp4Player_setup caps = Mp4PlayerNative)"
  by (simp add: Mp4Player_setup_cases)

text \<open>The amended C7 at capabilities that reach each of the three branches.\<close>

theorem C7_selection_chain_witness:
  "Mp4Player_setup \<lparr> isMediaSourceSupported = True, isServiceWorkerSupported = True,
       isEdgeAndroid = False, isHeyTapBrowser = False, isChromeVersionOk = True \<rparr>
     = Mp4PlayerSW
   \<and> Mp4Player_setup \<lparr> isMediaSourceSupported = True, isServiceWorkerSupported = False,
       isEdgeAndroid = False, isHeyTapBrowser = False, isChromeVersionOk = True \<rparr>
     = Mp4PlayerBox
   \<and> Mp4Player_setup \<lparr> isMediaSourceSupported = False, isServiceWorkerSupported = True,
       isEdgeAndroid = True, isHeyTapBrowser = False, isChromeVersionOk = True \<rparr>
     = Mp4PlayerNative"
  using
    C7_selection_chain [of "\<lparr> isMediaSourceSupported = True, isServiceWorkerSupported = True,
       isEdgeAndroid = False, isHeyTapBrowser = False, isChromeVersionOk = True \<rparr>"]
    C7_selection_chain [of "\<lparr> isMediaSourceSupported = True, isServiceWorkerSupported = False,
       isEdgeAndroid = False, isHeyTapBrowser = False, isChromeVersionOk = True \<rparr>"]
    C7_selection_chain [of "\<lparr> isMediaSourceSupported = False, isServiceWorkerSupported = True,
       isEdgeAndroid = True, isHeyTapBrowser = False, isChromeVersionOk = True \<rparr>"]
  by simp


section \<open>Results: Player.destroy\<close>

lemma destroy_when_destroyed: "isDestroyed p \<Longrightarrow> destroy reason p = (p, [])"
  by (simp add: destroy_def)

lemma destroy_sets_flag: "isDestroyed (fst (destroy reason p))"
  by (simp add: destroy_def)

text \<open>
  C9: on a player that is not yet destroyed, the first \<open>destroy\<close> calls the implementation's
  and the tracker's \<open>destroy\<close> (where they exist) and the service worker manager's, clears
  the options and shows one notification, whose message is the reason (the default text
  when no reason is given). Every later \<open>destroy\<close>, whatever its reason, changes nothing
  and calls nothing, so the two calls together show exactly one notification.
\<close>

theorem C9_destroy_idempotent:
  "\<not> isDestroyed p \<Longrightarrow>
     fst (destroy r1 p)
        = p\<lparr> isDestroyed := True, playerInstance := None, options := [], tracker := None \<rparr>
     \<and> snd (destroy r1 p)
        = (case playerInstance p of None \<Rightarrow> [] | Some _ \<Rightarrow> [PlayerInstanceDestroy])
          @ [ServiceWorkerDestroy]
          @ (case tracker p of None \<Rightarrow> [] | Some _ \<Rightarrow> [TrackerDestroy])
          @ [ShowSecurityWarning (js ''Notification'')
               (if truthy r1 then r1 else Str (js ''Player has been destroyed''))]
     \<and> destroy r2 (fst (destroy r1 p)) = (fst (destroy r1 p), [])
     \<and> filter is_notification (snd (destroy r1 p) @ snd (destroy r2 (fst (destroy r1 p))))
        = [ShowSecurityWarning (js ''Notification'')
             (if truthy r1 then r1 else Str (js ''Player has been destroyed''))]"
  by (auto simp: destroy_def js_or_def split: option.splits)

text \<open>C9 on a player with an implementation and a tracker, destroyed twice.\<close>

theorem C9_destroy_idempotent_witness:
  "destroy (Str (js ''again''))
      (fst (destroy (Str (js ''No playable sources found''))
         \<lparr> tracker = Some Tracker, playerInstance = Some Mp4Player, isDestroyed = False,
           options = [(''videoId'', Number 7)] \<rparr>))
     = (\<lparr> tracker = None, playerInstance = None, isDestroyed = True, options = [] \<rparr>, [])
   \<and> filter is_notification
        (snd (destroy (Str (js ''No playable sources found''))
           \<lparr> tracker = Some Tracker, playerInstance = Some Mp4Player, isDestroyed = False,
             options = [(''videoId'', Number 7)] \<rparr>)
         @ snd (destroy (Str (js ''again''))
           (fst (destroy (Str (js ''No playable sources found''))
              \<lparr> tracker = Some Tracker, playerInstance = Some Mp4Player, isDestroyed = False,
                options = [(''videoId'', Number 7)] \<rparr>))))
     = [ShowSecurityWarning (js ''Notification'') (Str (js ''No playable sources found''))]"
proof -
  let ?p = "\<lparr> tracker = Some Tracker, playerInstance = Some Mp4Player, isDestroyed = False,
              options = [(''videoId'', Number 7)] \<rparr>"
  have live: "\<not> isDestroyed ?p" by simp
  have nonempty: "truthy (Str (js ''No playable sources found''))"
    by (simp add: js_def)
  from C9_destroy_idempotent [OF live, of "Str (js ''No playable sources found'')" "Str (js ''again'')"]
       nonempty
  show ?thesis by (simp add: destroy_when_destroyed)
qed

end
